theory Spec2Isabelle
  imports Main "HOL-Library.Word"
begin

section \<open>Machine integers and policy constants\<close>

text \<open>
  Go's \<open>int64\<close> is a 64-bit word read in two's complement: comparisons are the signed
  ones (\<open><s\<close>, \<open>\<le>s\<close>), and \<open>sint\<close> gives the mathematical value.
\<close>

type_synonym int64 = "64 word"

text \<open>
  Modelled from the spec: the byte units \<open>client.GiB\<close> and \<open>client.TiB\<close> are constants
  of the package \<open>pkg/oci/client\<close>, which is not among the sources. The spec fixes the
  policy bounds as 50 GiB and 32 TiB, binary units.
\<close>

definition GiB :: int64 where
  "GiB = 1073741824"

definition TiB :: int64 where
  "TiB = 1099511627776"

definition MinimumVolumeSizeInBytes :: int64 where
  "MinimumVolumeSizeInBytes = 50 * GiB"

definition MaximumVolumeSizeInBytes :: int64 where
  "MaximumVolumeSizeInBytes = 32 * TiB"

definition defaultVolumeSizeInBytes :: int64 where
  "defaultVolumeSizeInBytes = MinimumVolumeSizeInBytes"

definition MaxOfInt :: "int64 \<Rightarrow> int64 \<Rightarrow> int64" where
  "MaxOfInt a b = (if b <s a then a else b)"

section \<open>Capacity resolution\<close>

text \<open>
  \<open>csi.CapacityRange\<close> with its two getters. The argument of \<open>ExtractStorage\<close> is a
  pointer, so the model takes an option: \<open>None\<close> is the nil pointer.
\<close>

record CapacityRange =
  RequiredBytes :: int64
  LimitBytes :: int64

text \<open>
  The errors of \<open>ExtractStorage\<close> are built by \<open>fmt.Errorf\<close> from the two sizes; the
  model keeps which of the three messages it is, and the sizes it was built from.
\<close>

datatype storage_error =
    LimitLessThanRequired int64 int64
  | RequiredExceedsMaximum int64
  | LimitExceedsMaximum int64

definition ExtractStorage :: "CapacityRange option \<Rightarrow> storage_error + int64" where
  "ExtractStorage capRange =
     (case capRange of
        None \<Rightarrow> Inr defaultVolumeSizeInBytes
      | Some r \<Rightarrow>
          let requiredBytes = RequiredBytes r;
              requiredSet = (0 <s requiredBytes);
              limitBytes = LimitBytes r;
              limitSet = (0 <s limitBytes)
          in if \<not> requiredSet \<and> \<not> limitSet then Inr defaultVolumeSizeInBytes
             else if requiredSet \<and> limitSet \<and> limitBytes <s requiredBytes
               then Inl (LimitLessThanRequired limitBytes requiredBytes)
             else if requiredSet \<and> \<not> limitSet
               then Inr (MaxOfInt requiredBytes MinimumVolumeSizeInBytes)
             else if limitSet
               then Inr (MaxOfInt limitBytes MinimumVolumeSizeInBytes)
             else if requiredSet \<and> MaximumVolumeSizeInBytes <s requiredBytes
               then Inl (RequiredExceedsMaximum requiredBytes)
             else if \<not> requiredSet \<and> limitSet \<and> MaximumVolumeSizeInBytes <s limitBytes
               then Inl (LimitExceedsMaximum limitBytes)
             else if requiredSet \<and> limitSet
               then Inr (MaxOfInt requiredBytes limitBytes)
             else if requiredSet then Inr requiredBytes
             else if limitSet then Inr limitBytes
             else Inr defaultVolumeSizeInBytes)"

section \<open>Per-volume operation locks\<close>

text \<open>
  \<open>VolumeLocks\<close> holds a \<open>sets.String\<close> and a mutex. Every method takes the mutex
  for its whole body, so a method is one atomic step on the set; the model is that step,
  with the state passed in and returned.
\<close>

record VolumeLocks =
  locks :: "string set"

definition NewVolumeLocks :: VolumeLocks where
  "NewVolumeLocks = \<lparr>locks = {}\<rparr>"

definition TryAcquire :: "VolumeLocks \<Rightarrow> string \<Rightarrow> bool \<times> VolumeLocks" where
  "TryAcquire vl volumeID =
     (if volumeID \<in> locks vl then (False, vl)
      else (True, vl\<lparr>locks := insert volumeID (locks vl)\<rparr>))"

definition Release :: "VolumeLocks \<Rightarrow> string \<Rightarrow> VolumeLocks" where
  "Release vl volumeID = vl\<lparr>locks := locks vl - {volumeID}\<rparr>"

section \<open>Strings of the Go standard library\<close>



section \<open>Node address families\<close>












section \<open>Byte strings: searching, slicing, trimming\<close>

text \<open>
  The functions of Go's \<open>strings\<close> package that the handle parser calls.
  \<open>strings.Index(s, ":")\<close> and \<open>strings.LastIndex(s, ":")\<close> search for a one-byte
  separator: the index of its first (last) occurrence, or -1. A slice expression
  \<open>s[lo:hi]\<close> is \<open>slice s lo hi\<close>; it panics at run time, here \<open>None\<close>, unless
  \<open>0 \<le> lo \<le> hi \<le> len(s)\<close>.
  \<open>strings.Trim(s, cutset)\<close> removes the leading and the trailing bytes that occur in
  the cutset.
\<close>

type_synonym byte = "8 word"

definition byteOf :: "char \<Rightarrow> nat" where
  "byteOf c = of_char c"

fun IndexByte :: "string \<Rightarrow> char \<Rightarrow> int" where
  "IndexByte [] c = - 1"
| "IndexByte (x # xs) c =
     (if x = c then 0 else (let r = IndexByte xs c in if r < 0 then - 1 else r + 1))"

fun LastIndexByte :: "string \<Rightarrow> char \<Rightarrow> int" where
  "LastIndexByte [] c = - 1"
| "LastIndexByte (x # xs) c =
     (let r = LastIndexByte xs c in if 0 \<le> r then r + 1 else if x = c then 0 else - 1)"

definition slice :: "string \<Rightarrow> int \<Rightarrow> int \<Rightarrow> string option" where
  "slice s lo hi =
     (if 0 \<le> lo \<and> lo \<le> hi \<and> hi \<le> int (length s)
      then Some (take (nat hi - nat lo) (drop (nat lo) s))
      else None)"

definition Trim :: "string \<Rightarrow> string \<Rightarrow> string" where
  "Trim s cutset =
     rev (dropWhile (\<lambda>c. c \<in> set cutset) (rev (dropWhile (\<lambda>c. c \<in> set cutset) s)))"

section \<open>IP addresses of the Go standard library\<close>

text \<open>
  \<open>net.ParseIP\<close> is \<open>netip.ParseAddr\<close> with every address that carries a zone
  refused; the result is the 16-byte form, an IPv4 address being mapped into IPv6, and
  nil when the text is not an address. The model follows the library's parser loop by
  loop. A \<open>net.IP\<close> is a byte slice, and the nil slice is the empty list.

  The IPv4 loop walks the bytes of \<open>s\<close> with the index \<open>i\<close>, the value \<open>val\<close> and
  the digit count \<open>digLen\<close> of the octet being read, and the number \<open>pos\<close> of
  octets stored so far; the last argument is the part of \<open>s\<close> from \<open>i\<close> on.
\<close>

definition isDigit :: "char \<Rightarrow> bool" where
  "isDigit c = (byteOf CHR ''0'' \<le> byteOf c \<and> byteOf c \<le> byteOf CHR ''9'')"

fun parseIPv4_loop ::
  "string \<Rightarrow> nat \<Rightarrow> nat \<Rightarrow> nat \<Rightarrow> nat \<Rightarrow> byte list \<Rightarrow> string \<Rightarrow> byte list option" where
  "parseIPv4_loop s i val pos digLen flds [] =
     (if pos < 3 then None else Some (flds[3 := of_nat val]))"
| "parseIPv4_loop s i val pos digLen flds (c # cs) =
     (if isDigit c then
        (if digLen = 1 \<and> val = 0 then None
         else let val' = val * 10 + (byteOf c - byteOf CHR ''0'') in
              if val' > 255 then None
              else parseIPv4_loop s (i + 1) val' pos (digLen + 1) flds cs)
      else if c = CHR ''.'' then
        (if i = 0 \<or> i = length s - 1 \<or> s ! (i - 1) = CHR ''.'' then None
         else if pos = 3 then None
         else parseIPv4_loop s (i + 1) 0 (pos + 1) 0 (flds[pos := of_nat val]) cs)
      else None)"

definition parseIPv4 :: "string \<Rightarrow> byte list option" where
  "parseIPv4 s = parseIPv4_loop s 0 0 0 0 [0, 0, 0, 0] s"

text \<open>
  The IPv6 parser reads groups of hexadecimal digits. \<open>scanHex\<close> is the inner loop: it
  returns the value and the number of digits read, and fails on a fifth digit.
  \<open>parseIPv6_loop\<close> is the outer loop over the groups, with the 16-byte array \<open>ip\<close>,
  the write position \<open>i\<close>, the position of the \<open>::\<close> (\<open>- 1\<close> when there is
  none so far) and the rest of the input; it returns them as they are when the loop is
  left. A dot after the digits hands the rest to the IPv4 parser.
\<close>

definition hexVal :: "char \<Rightarrow> nat option" where
  "hexVal c =
     (if byteOf CHR ''0'' \<le> byteOf c \<and> byteOf c \<le> byteOf CHR ''9''
        then Some (byteOf c - byteOf CHR ''0'')
      else if byteOf CHR ''a'' \<le> byteOf c \<and> byteOf c \<le> byteOf CHR ''f''
        then Some (byteOf c - byteOf CHR ''a'' + 10)
      else if byteOf CHR ''A'' \<le> byteOf c \<and> byteOf c \<le> byteOf CHR ''F''
        then Some (byteOf c - byteOf CHR ''A'' + 10)
      else None)"

fun scanHex :: "nat \<Rightarrow> nat \<Rightarrow> string \<Rightarrow> (nat \<times> nat) option" where
  "scanHex off acc [] = Some (acc, off)"
| "scanHex off acc (c # cs) =
     (case hexVal c of
        None \<Rightarrow> Some (acc, off)
      | Some d \<Rightarrow>
          let acc' = acc * 16 + d in
          if off > 3 then None
          else if acc' > 65535 then None
          else scanHex (off + 1) acc' cs)"

function parseIPv6_loop ::
  "byte list \<Rightarrow> nat \<Rightarrow> int \<Rightarrow> string \<Rightarrow> (byte list \<times> nat \<times> int \<times> string) option" where
  "parseIPv6_loop ip i ellipsis s =
     (if \<not> i < 16 then Some (ip, i, ellipsis, s)
      else
        (case scanHex 0 0 s of
           None \<Rightarrow> None
         | Some (acc, off) \<Rightarrow>
             if off = 0 then None
             else if off < length s \<and> s ! off = CHR ''.'' then
               (if ellipsis < 0 \<and> i \<noteq> 12 then None
                else if i + 4 > 16 then None
                else (case parseIPv4 s of
                        None \<Rightarrow> None
                      | Some ip4 \<Rightarrow>
                          Some (ip[i := ip4 ! 0, i + 1 := ip4 ! 1, i + 2 := ip4 ! 2,
                                   i + 3 := ip4 ! 3], i + 4, ellipsis, [])))
             else
               (if drop off s = [] then
                  Some (ip[i := of_nat (acc div 256), i + 1 := of_nat (acc mod 256)],
                        i + 2, ellipsis, [])
                else if hd (drop off s) \<noteq> CHR '':'' then None
                else if length (drop off s) = 1 then None
                else if hd (tl (drop off s)) = CHR '':'' then
                  (if 0 \<le> ellipsis then None
                   else if tl (tl (drop off s)) = [] then
                     Some (ip[i := of_nat (acc div 256), i + 1 := of_nat (acc mod 256)],
                           i + 2, int (i + 2), [])
                   else parseIPv6_loop
                          (ip[i := of_nat (acc div 256), i + 1 := of_nat (acc mod 256)])
                          (i + 2) (int (i + 2)) (tl (tl (drop off s))))
                else parseIPv6_loop
                       (ip[i := of_nat (acc div 256), i + 1 := of_nat (acc mod 256)])
                       (i + 2) ellipsis (tl (drop off s)))))"
  by pat_completeness auto
termination
  by (relation "measure (\<lambda>(ip, i, ellipsis, s). 16 - i)") auto

text \<open>
  After the loop, a \<open>::\<close> at position \<open>ellipsis\<close> is expanded: the bytes written
  after it move to the end of the array and the gap is cleared.
\<close>

definition expandEllipsis :: "byte list \<Rightarrow> nat \<Rightarrow> nat \<Rightarrow> byte list" where
  "expandEllipsis ip i ellipsis =
     (let n = 16 - i;
          moved = foldl (\<lambda>a j. a[j + n := a ! j]) ip (rev [ellipsis..<i])
      in foldl (\<lambda>a j. a[j := 0]) moved [ellipsis..<ellipsis + n])"

datatype Addr = Addr4 "byte list" | Addr6 "byte list" string

definition zero16 :: "byte list" where
  "zero16 = [0, 0, 0, 0, 0, 0, 0, 0, 0, 0, 0, 0, 0, 0, 0, 0]"

definition v4InV6Prefix :: "byte list" where
  "v4InV6Prefix = [0, 0, 0, 0, 0, 0, 0, 0, 0, 0, 255, 255]"

definition parseIPv6 :: "string \<Rightarrow> Addr option" where
  "parseIPv6 input =
     (let p = IndexByte input CHR ''%'';
          s0 = (if p \<noteq> - 1 then take (nat p) input else input);
          zone = (if p \<noteq> - 1 then drop (nat p + 1) input else [])
      in if p \<noteq> - 1 \<and> zone = [] then None
         else
           let lead = (length s0 \<ge> 2 \<and> s0 ! 0 = CHR '':'' \<and> s0 ! 1 = CHR '':'');
               ellipsis0 = (if lead then 0 else - 1);
               s1 = (if lead then drop 2 s0 else s0)
           in if lead \<and> s1 = [] then Some (Addr6 zero16 zone)
              else
                (case parseIPv6_loop zero16 0 ellipsis0 s1 of
                   None \<Rightarrow> None
                 | Some (ip, i, ellipsis, rest) \<Rightarrow>
                     if rest \<noteq> [] then None
                     else if i < 16 then
                       (if ellipsis < 0 then None
                        else Some (Addr6 (expandEllipsis ip i (nat ellipsis)) zone))
                     else if 0 \<le> ellipsis then None
                     else Some (Addr6 ip zone)))"

text \<open>
  \<open>ParseAddr\<close> looks for the first dot, colon or percent sign and lets it choose the
  parser.
\<close>

fun ParseAddr_loop :: "string \<Rightarrow> string \<Rightarrow> Addr option" where
  "ParseAddr_loop s [] = None"
| "ParseAddr_loop s (c # cs) =
     (if c = CHR ''.'' then map_option Addr4 (parseIPv4 s)
      else if c = CHR '':'' then parseIPv6 s
      else if c = CHR ''%'' then None
      else ParseAddr_loop s cs)"

definition ParseAddr :: "string \<Rightarrow> Addr option" where
  "ParseAddr s = ParseAddr_loop s s"

fun Zone :: "Addr \<Rightarrow> string" where
  "Zone (Addr4 b) = []"
| "Zone (Addr6 b z) = z"

fun As16 :: "Addr \<Rightarrow> byte list" where
  "As16 (Addr4 b) = v4InV6Prefix @ b"
| "As16 (Addr6 b z) = b"

type_synonym IP = "byte list"

definition ParseIP :: "string \<Rightarrow> IP" where
  "ParseIP s =
     (case ParseAddr s of
        None \<Rightarrow> []
      | Some a \<Rightarrow> if Zone a \<noteq> [] then [] else As16 a)"

definition To4 :: "IP \<Rightarrow> IP" where
  "To4 ip =
     (if length ip = 4 then ip
      else if length ip = 16 \<and> list_all (\<lambda>b. b = 0) (take 10 ip)
                \<and> ip ! 10 = 255 \<and> ip ! 11 = 255
        then take 4 (drop 12 ip)
      else [])"

definition To16 :: "IP \<Rightarrow> IP" where
  "To16 ip =
     (if length ip = 4 then v4InV6Prefix @ ip
      else if length ip = 16 then ip
      else [])"

text \<open>
  \<open>IP.String\<close>: dotted decimal for an address that \<open>To4\<close> accepts, otherwise the IPv6
  text form. The IPv6 form writes the eight 16-bit groups in lower-case hexadecimal
  without leading zeros and replaces the longest run of two or more zero groups (the
  first of them when several are longest) by \<open>::\<close>. \<open>zeroRunEnd\<close> and \<open>findZeros\<close>
  are the two nested loops that find the run, \<open>emit6\<close> is the loop that writes; in it
  \<open>max i zeroEnd\<close> is the library's \<open>zeroEnd\<close>, which is never below the start of the
  run.
\<close>

definition hexDigits :: string where
  "hexDigits = ''0123456789abcdef''"

definition appendHex :: "nat \<Rightarrow> string" where
  "appendHex x =
     (if x \<ge> 4096 then [hexDigits ! (x div 4096)] else [])
     @ (if x \<ge> 256 then [hexDigits ! (x div 256 mod 16)] else [])
     @ (if x \<ge> 16 then [hexDigits ! (x div 16 mod 16)] else [])
     @ [hexDigits ! (x mod 16)]"

definition v6u16 :: "IP \<Rightarrow> nat \<Rightarrow> nat" where
  "v6u16 ip i = unat (ip ! (2 * i)) * 256 + unat (ip ! (2 * i + 1))"

function zeroRunEnd :: "IP \<Rightarrow> nat \<Rightarrow> nat" where
  "zeroRunEnd ip j = (if j < 8 \<and> v6u16 ip j = 0 then zeroRunEnd ip (j + 1) else j)"
  by pat_completeness auto
termination
  by (relation "measure (\<lambda>(ip, j). 8 - j)") auto

definition findZeros :: "IP \<Rightarrow> nat \<times> nat" where
  "findZeros ip =
     foldl (\<lambda>(zeroStart, zeroEnd) i.
              let j = zeroRunEnd ip i; l = j - i
              in if l \<ge> 2 \<and> l > zeroEnd - zeroStart then (i, j) else (zeroStart, zeroEnd))
       (255, 255) [0..<8]"

function emit6 :: "IP \<Rightarrow> nat \<Rightarrow> nat \<Rightarrow> nat \<Rightarrow> string" where
  "emit6 ip zeroStart zeroEnd i =
     (if \<not> i < 8 then []
      else if i = zeroStart then
        '':'' @ '':'' @
          (if max i zeroEnd \<ge> 8 then []
           else appendHex (v6u16 ip (max i zeroEnd))
                  @ emit6 ip zeroStart zeroEnd (max i zeroEnd + 1))
      else (if i > 0 then '':'' else []) @ appendHex (v6u16 ip i)
             @ emit6 ip zeroStart zeroEnd (i + 1))"
  by pat_completeness auto
termination
  by (relation "measure (\<lambda>(ip, zeroStart, zeroEnd, i). 8 - i)") auto

definition string6 :: "IP \<Rightarrow> string" where
  "string6 ip = (case findZeros ip of (zeroStart, zeroEnd) \<Rightarrow> emit6 ip zeroStart zeroEnd 0)"

fun uitoa :: "nat \<Rightarrow> string" where
  "uitoa n = (if n < 10 then [hexDigits ! n] else uitoa (n div 10) @ [hexDigits ! (n mod 10)])"

definition string4 :: "IP \<Rightarrow> string" where
  "string4 ip =
     uitoa (unat (ip ! 0)) @ ''.'' @ uitoa (unat (ip ! 1)) @ ''.''
       @ uitoa (unat (ip ! 2)) @ ''.'' @ uitoa (unat (ip ! 3))"

definition hexString :: "IP \<Rightarrow> string" where
  "hexString ip =
     concat (map (\<lambda>b. [hexDigits ! (unat b div 16), hexDigits ! (unat b mod 16)]) ip)"

definition IP_String :: "IP \<Rightarrow> string" where
  "IP_String ip =
     (if length ip = 0 then ''<nil>''
      else if length ip \<noteq> 4 \<and> length ip \<noteq> 16 then ''?'' @ hexString ip
      else if length (To4 ip) = 4 then string4 (To4 ip)
      else string6 ip)"

section \<open>Address formatting and iSCSI address synthesis\<close>

definition FormatValidIp :: "string \<Rightarrow> string" where
  "FormatValidIp ipAddress =
     (if To4 (ParseIP ipAddress) \<noteq> [] then ipAddress
      else if To16 (ParseIP ipAddress) \<noteq> [] then ''['' @ Trim ipAddress ''[]'' @ '']''
      else ipAddress)"

definition IscsiIpv6Prefix :: string where
  "IscsiIpv6Prefix = ''fd00:00c1::''"

text \<open>
  \<open>copy(dst[off:], src)\<close> on byte slices. The slice expression panics when \<open>off\<close> is
  beyond the length of \<open>dst\<close>; \<open>ConvertIscsiIpFromIpv4ToIpv6\<close> has that case as an
  error value of its own.
\<close>

definition copyAt :: "IP \<Rightarrow> nat \<Rightarrow> IP \<Rightarrow> IP" where
  "copyAt dst off src =
     take off dst @ take (length dst - off) src @ drop (off + length src) dst"

datatype iscsi_error = InvalidIscsiIp string | SliceBoundsPanic

definition ConvertIscsiIpFromIpv4ToIpv6 :: "string \<Rightarrow> iscsi_error + string" where
  "ConvertIscsiIpFromIpv4ToIpv6 ipv4IscsiIp =
     (let ipv4IscsiIP = To4 (ParseIP ipv4IscsiIp)
      in if ipv4IscsiIP = [] then Inl (InvalidIscsiIp ipv4IscsiIp)
         else
           let ipv6IscsiIp = ParseIP IscsiIpv6Prefix;
               ipv6IscsiIpBytes = To16 ipv6IscsiIp
           in if length ipv6IscsiIpBytes < 12 then Inl SliceBoundsPanic
              else Inr (IP_String (copyAt ipv6IscsiIpBytes 12 (To4 ipv4IscsiIP))))"

text \<open>
  The sixteen bytes the synthesis formats: the twelve bytes of the parsed prefix followed
  by the four octets; and the text that follows \<open>fd00:c1::\<close> in their IPv6 form, as a
  function of the two low groups.
\<close>

definition iscsiBytes :: "byte \<Rightarrow> byte \<Rightarrow> byte \<Rightarrow> byte \<Rightarrow> IP" where
  "iscsiBytes a b c d = [253, 0, 0, 193, 0, 0, 0, 0, 0, 0, 0, 0, a, b, c, d]"

definition iscsiTail :: "nat \<Rightarrow> nat \<Rightarrow> string" where
  "iscsiTail hi lo =
     (if hi = 0 then (if lo = 0 then [] else appendHex lo)
      else appendHex hi @ '':'' @ appendHex lo)"

section \<open>Regular expressions and DNS names\<close>

text \<open>
  \<open>regexp.MatchString\<close> with a pattern anchored by \<open>^\<close> and \<open>$\<close> asks whether the
  whole string is in the language of the pattern between the anchors. The matcher takes
  the derivative of the pattern by each byte in turn and accepts when what is left
  matches the empty string. \<open>dnsPattern\<close> is the pattern of \<open>ValidateDNSName\<close>,
  \<open>^([a-zA-Z0-9]+(-[a-zA-Z0-9]+)*\.)+[a-zA-Z]{2,}$\<close>.
\<close>

datatype regex =
    Class "(char \<times> char) list"
  | Lit char
  | Eps
  | Void
  | Seq regex regex
  | Alt regex regex
  | Star regex

definition inClass :: "char \<Rightarrow> (char \<times> char) list \<Rightarrow> bool" where
  "inClass c rs = list_ex (\<lambda>(lo, hi). byteOf lo \<le> byteOf c \<and> byteOf c \<le> byteOf hi) rs"

fun nullable :: "regex \<Rightarrow> bool" where
  "nullable (Class rs) = False"
| "nullable (Lit c) = False"
| "nullable Eps = True"
| "nullable Void = False"
| "nullable (Seq r s) = (nullable r \<and> nullable s)"
| "nullable (Alt r s) = (nullable r \<or> nullable s)"
| "nullable (Star r) = True"

fun deriv :: "char \<Rightarrow> regex \<Rightarrow> regex" where
  "deriv c (Class rs) = (if inClass c rs then Eps else Void)"
| "deriv c (Lit d) = (if c = d then Eps else Void)"
| "deriv c Eps = Void"
| "deriv c Void = Void"
| "deriv c (Seq r s) =
     (if nullable r then Alt (Seq (deriv c r) s) (deriv c s) else Seq (deriv c r) s)"
| "deriv c (Alt r s) = Alt (deriv c r) (deriv c s)"
| "deriv c (Star r) = Seq (deriv c r) (Star r)"

definition matchWhole :: "regex \<Rightarrow> string \<Rightarrow> bool" where
  "matchWhole r s = nullable (foldl (\<lambda>q c. deriv c q) r s)"

definition Plus :: "regex \<Rightarrow> regex" where
  "Plus r = Seq r (Star r)"

definition dnsPattern :: regex where
  "dnsPattern =
     (let alnum = Class [(CHR ''a'', CHR ''z''), (CHR ''A'', CHR ''Z''), (CHR ''0'', CHR ''9'')];
          alpha = Class [(CHR ''a'', CHR ''z''), (CHR ''A'', CHR ''Z'')]
      in Seq (Plus (Seq (Seq (Plus alnum) (Star (Seq (Lit CHR ''-'') (Plus alnum))))
                        (Lit CHR ''.'')))
             (Seq alpha (Seq alpha (Star alpha))))"

definition ValidateDNSName :: "string \<Rightarrow> bool" where
  "ValidateDNSName name = matchWhole dnsPattern name"

section \<open>File storage volume handles\<close>

record FSSVolumeHandler =
  FilesystemOcid :: string
  MountTargetIPAddress :: string
  FsExportPath :: string

text \<open>
  \<open>ValidateFssId\<close> returns a handle and no error; the result \<open>None\<close> is a run-time
  panic of one of its slice expressions.
\<close>

definition ValidateFssId :: "string \<Rightarrow> FSSVolumeHandler option" where
  "ValidateFssId ident =
     (let volumeHandler =
            \<lparr>FilesystemOcid = [], MountTargetIPAddress = [], FsExportPath = []\<rparr>
      in if ident = [] then Some volumeHandler
         else
           let firstColon = IndexByte ident CHR '':'';
               lastColon = LastIndexByte ident CHR '':''
           in if 0 < firstColon \<and> lastColon < int (length ident) - 1 \<and> firstColon \<noteq> lastColon
              then
                (case slice ident (firstColon + 1) lastColon of
                   None \<Rightarrow> None
                 | Some mid \<Rightarrow>
                     if ParseIP (Trim mid ''[]'') \<noteq> [] \<or> ValidateDNSName mid
                     then
                       (case (slice ident 0 firstColon,
                              slice ident (lastColon + 1) (int (length ident))) of
                          (Some fs, Some path) \<Rightarrow>
                            Some (volumeHandler
                                    \<lparr>FilesystemOcid := fs,
                                     MountTargetIPAddress := mid,
                                     FsExportPath := path\<rparr>)
                        | _ \<Rightarrow> None)
                     else Some volumeHandler)
              else Some volumeHandler)"

text \<open>
  Modelled from the spec: the serialised form of a handle, its three fields joined by
  colons with the address passed through \<open>FormatValidIp\<close>. The sources contain the
  parser and the formatter but no function that builds the string. \<open>emptyHandle\<close> is
  the handle \<open>ValidateFssId\<close> starts from, all three fields empty.
\<close>

definition serializeHandle :: "FSSVolumeHandler \<Rightarrow> string" where
  "serializeHandle h =
     FilesystemOcid h @ '':'' @ FormatValidIp (MountTargetIPAddress h) @ '':'' @ FsExportPath h"

definition emptyHandle :: FSSVolumeHandler where
  "emptyHandle = \<lparr>FilesystemOcid = [], MountTargetIPAddress = [], FsExportPath = []\<rparr>"

section \<open>Facts about the constants\<close>

lemma sint_MinimumVolumeSizeInBytes: "sint MinimumVolumeSizeInBytes = 53687091200"
  by (simp add: MinimumVolumeSizeInBytes_def GiB_def)

lemma sint_MaximumVolumeSizeInBytes: "sint MaximumVolumeSizeInBytes = 35184372088832"
  by (simp add: MaximumVolumeSizeInBytes_def TiB_def)

lemma sint_MaxOfInt: "sint (MaxOfInt a b) = max (sint a) (sint b)"
  by (simp add: MaxOfInt_def word_sless_alt max_def)


section \<open>Capacity resolution: the claims\<close>

text \<open>
  C1. Whenever the limit is set (strictly positive) and the required size is either unset
  or set and not above the limit, \<open>ExtractStorage\<close> succeeds and returns the larger of
  the limit and the 50 GiB minimum. Nothing is assumed about the 32 TiB maximum.
\<close>

theorem ExtractStorage_limit_set:
  assumes "0 <s limitB"
    and "\<not> 0 <s requiredB \<or> requiredB \<le>s limitB"
  shows "\<exists>v. ExtractStorage (Some \<lparr>RequiredBytes = requiredB, LimitBytes = limitB\<rparr>) = Inr v
           \<and> v = MaxOfInt limitB MinimumVolumeSizeInBytes
           \<and> sint v = max (sint limitB) (50 * 2 ^ 30)"
proof -
  from assms(2) have "\<not> (0 <s requiredB \<and> limitB <s requiredB)"
    by (auto simp: word_sless_alt word_sle_eq)
  with assms(1) have "ExtractStorage (Some \<lparr>RequiredBytes = requiredB, LimitBytes = limitB\<rparr>)
      = Inr (MaxOfInt limitB MinimumVolumeSizeInBytes)"
    by (auto simp: ExtractStorage_def Let_def)
  moreover have "sint (MaxOfInt limitB MinimumVolumeSizeInBytes) = max (sint limitB) (50 * 2 ^ 30)"
    by (simp add: sint_MaxOfInt sint_MinimumVolumeSizeInBytes)
  ultimately show ?thesis by simp
qed

theorem ExtractStorage_limit_set_witness:
  "\<exists>v. ExtractStorage (Some \<lparr>RequiredBytes = 10 * GiB, LimitBytes = 33 * TiB\<rparr>) = Inr v
     \<and> v = MaxOfInt (33 * TiB) MinimumVolumeSizeInBytes
     \<and> sint v = 36283883716608 \<and> sint MaximumVolumeSizeInBytes < sint v"
proof -
  have a: "0 <s 33 * TiB" by (simp add: TiB_def word_sless_alt)
  have b: "\<not> 0 <s 10 * GiB \<or> 10 * GiB \<le>s 33 * TiB"
    by (simp add: TiB_def GiB_def word_sle_eq)
  have c: "sint (33 * TiB) = 36283883716608" by (simp add: TiB_def)
  from ExtractStorage_limit_set [OF a b] c show ?thesis
    by (auto simp: sint_MaximumVolumeSizeInBytes)
qed

text \<open>
  C2. A required size above the 32 TiB maximum with no limit set is documented to fail
  ("If the capacity range is below or above supported sizes, it returns an error"), and
  the function has a branch that builds that error. The branch for "required set, limit
  unset" returns first: at 33 TiB the call succeeds and returns 33 TiB.
\<close>

theorem ExtractStorage_required_above_maximum:
  "ExtractStorage (Some \<lparr>RequiredBytes = 33 * TiB, LimitBytes = 0\<rparr>) = Inr (33 * TiB)
   \<and> MaximumVolumeSizeInBytes <s 33 * TiB"
  by (simp add: ExtractStorage_def Let_def MaxOfInt_def MinimumVolumeSizeInBytes_def
      MaximumVolumeSizeInBytes_def GiB_def TiB_def word_sless_alt)

text \<open>
  C3. When both sizes are set and the limit is below the required size, the result is the
  "limit less than required" error, whatever the sizes are otherwise.
\<close>

theorem ExtractStorage_limit_less_than_required:
  assumes "0 <s requiredB" and "0 <s limitB" and "limitB <s requiredB"
  shows "ExtractStorage (Some \<lparr>RequiredBytes = requiredB, LimitBytes = limitB\<rparr>)
           = Inl (LimitLessThanRequired limitB requiredB)"
  using assms by (simp add: ExtractStorage_def Let_def)

theorem ExtractStorage_limit_less_than_required_witness:
  "ExtractStorage (Some \<lparr>RequiredBytes = 100 * TiB, LimitBytes = 50 * TiB\<rparr>)
     = Inl (LimitLessThanRequired (50 * TiB) (100 * TiB))"
proof -
  have a: "0 <s 100 * TiB" by (simp add: TiB_def word_sless_alt)
  have b: "0 <s 50 * TiB" by (simp add: TiB_def word_sless_alt)
  have c: "50 * TiB <s 100 * TiB" by (simp add: TiB_def word_sless_alt)
  show ?thesis by (rule ExtractStorage_limit_less_than_required [OF a b c])
qed

text \<open>
  C10. A size that is zero or negative counts as unset. With both sizes non-positive the
  result is the 50 GiB default, and a non-positive size in either field never produces
  the "limit less than required" error.
\<close>

theorem ExtractStorage_non_positive_unset:
  "(requiredB \<le>s 0 \<and> limitB \<le>s 0 \<longrightarrow>
      ExtractStorage (Some \<lparr>RequiredBytes = requiredB, LimitBytes = limitB\<rparr>)
        = Inr defaultVolumeSizeInBytes
      \<and> sint defaultVolumeSizeInBytes = 50 * 2 ^ 30)
   \<and> (requiredB \<le>s 0 \<or> limitB \<le>s 0 \<longrightarrow>
      (\<forall>a b. ExtractStorage (Some \<lparr>RequiredBytes = requiredB, LimitBytes = limitB\<rparr>)
        \<noteq> Inl (LimitLessThanRequired a b)))"
  by (auto simp: ExtractStorage_def Let_def word_sless_alt word_sle_eq
      defaultVolumeSizeInBytes_def sint_MinimumVolumeSizeInBytes)

theorem ExtractStorage_non_positive_unset_witness:
  "ExtractStorage (Some \<lparr>RequiredBytes = - 5, LimitBytes = - 1\<rparr>) = Inr (50 * GiB)
   \<and> ExtractStorage (Some \<lparr>RequiredBytes = - 5, LimitBytes = 60 * GiB\<rparr>) = Inr (60 * GiB)
   \<and> ExtractStorage (Some \<lparr>RequiredBytes = 60 * GiB, LimitBytes = - 5\<rparr>) = Inr (60 * GiB)"
proof -
  have a: "(- 5 :: int64) \<le>s 0 \<and> (- 1 :: int64) \<le>s 0" by (simp add: word_sle_eq)
  from ExtractStorage_non_positive_unset [of "- 5" "- 1"] a
  have "ExtractStorage (Some \<lparr>RequiredBytes = - 5, LimitBytes = - 1\<rparr>) = Inr (50 * GiB)"
    by (simp add: defaultVolumeSizeInBytes_def MinimumVolumeSizeInBytes_def)
  moreover have "ExtractStorage (Some \<lparr>RequiredBytes = - 5, LimitBytes = 60 * GiB\<rparr>) = Inr (60 * GiB)"
    by (simp add: ExtractStorage_def Let_def MaxOfInt_def MinimumVolumeSizeInBytes_def
        GiB_def word_sless_alt)
  moreover have "ExtractStorage (Some \<lparr>RequiredBytes = 60 * GiB, LimitBytes = - 5\<rparr>) = Inr (60 * GiB)"
    by (simp add: ExtractStorage_def Let_def MaxOfInt_def MinimumVolumeSizeInBytes_def
        GiB_def word_sless_alt)
  ultimately show ?thesis by simp
qed

section \<open>Volume locks: the claim\<close>

text \<open>
  C4. \<open>TryAcquire\<close> returns true and adds the id exactly when the id was not held, and
  returns false with the state unchanged otherwise. From a state where the id is free,
  two calls in a row give true then false; the second of two calls in a row is false in
  every state; after \<open>Release\<close> the next \<open>TryAcquire\<close> gives true. \<open>Release\<close>
  removes the id, changes nothing when the id is not held, and leaves every other id as
  it was.
\<close>

theorem VolumeLocks_TryAcquire_Release:
  "(fst (TryAcquire vl v) \<longleftrightarrow> v \<notin> locks vl)
   \<and> (v \<notin> locks vl \<longrightarrow> TryAcquire vl v = (True, vl\<lparr>locks := insert v (locks vl)\<rparr>))
   \<and> (v \<in> locks vl \<longrightarrow> TryAcquire vl v = (False, vl))
   \<and> v \<in> locks (snd (TryAcquire vl v))
   \<and> (v \<notin> locks vl \<longrightarrow>
        (fst (TryAcquire vl v), fst (TryAcquire (snd (TryAcquire vl v)) v)) = (True, False))
   \<and> \<not> fst (TryAcquire (snd (TryAcquire vl v)) v)
   \<and> fst (TryAcquire (Release (snd (TryAcquire vl v)) v) v)
   \<and> fst (TryAcquire (Release vl v) v)
   \<and> locks (Release vl v) = locks vl - {v}
   \<and> v \<notin> locks (Release vl v)
   \<and> (v \<notin> locks vl \<longrightarrow> Release vl v = vl)
   \<and> (\<forall>w. w \<noteq> v \<longrightarrow> (w \<in> locks (Release vl v) \<longleftrightarrow> w \<in> locks vl))
   \<and> (\<forall>w. w \<noteq> v \<longrightarrow> (w \<in> locks (snd (TryAcquire vl v)) \<longleftrightarrow> w \<in> locks vl))"
  by (auto simp: TryAcquire_def Release_def)

theorem VolumeLocks_TryAcquire_Release_witness:
  "TryAcquire NewVolumeLocks ''vol-1'' = (True, \<lparr>locks = {''vol-1''}\<rparr>)
   \<and> TryAcquire \<lparr>locks = {''vol-1''}\<rparr> ''vol-1'' = (False, \<lparr>locks = {''vol-1''}\<rparr>)
   \<and> Release \<lparr>locks = {''vol-2''}\<rparr> ''vol-1'' = \<lparr>locks = {''vol-2''}\<rparr>
   \<and> (''vol-2'' \<in> locks (Release \<lparr>locks = {''vol-1'', ''vol-2''}\<rparr> ''vol-1''))"
proof -
  have a: "''vol-1'' \<notin> locks NewVolumeLocks" by (simp add: NewVolumeLocks_def)
  have b: "''vol-1'' \<in> locks \<lparr>locks = {''vol-1''}\<rparr>" by simp
  have c: "''vol-1'' \<notin> locks \<lparr>locks = {''vol-2''}\<rparr>" by simp
  have d: "''vol-2'' \<noteq> ''vol-1''" by simp
  have e: "''vol-2'' \<in> locks \<lparr>locks = {''vol-1'', ''vol-2''}\<rparr>" by simp
  from VolumeLocks_TryAcquire_Release [of NewVolumeLocks "''vol-1''"] a
  have 1: "TryAcquire NewVolumeLocks ''vol-1'' = (True, \<lparr>locks = {''vol-1''}\<rparr>)"
    by (simp add: NewVolumeLocks_def)
  from VolumeLocks_TryAcquire_Release [of "\<lparr>locks = {''vol-1''}\<rparr>" "''vol-1''"] b
  have 2: "TryAcquire \<lparr>locks = {''vol-1''}\<rparr> ''vol-1'' = (False, \<lparr>locks = {''vol-1''}\<rparr>)"
    by blast
  from VolumeLocks_TryAcquire_Release [of "\<lparr>locks = {''vol-2''}\<rparr>" "''vol-1''"] c
  have 3: "Release \<lparr>locks = {''vol-2''}\<rparr> ''vol-1'' = \<lparr>locks = {''vol-2''}\<rparr>"
    by blast
  from VolumeLocks_TryAcquire_Release [of "\<lparr>locks = {''vol-1'', ''vol-2''}\<rparr>" "''vol-1''"] d e
  have 4: "''vol-2'' \<in> locks (Release \<lparr>locks = {''vol-1'', ''vol-2''}\<rparr> ''vol-1'')"
    by blast
  from 1 2 3 4 show ?thesis by blast
qed

section \<open>Node address families: the claim\<close>



section \<open>Hexadecimal groups\<close>

text \<open>
  The recursive loops are unfolded by hand, at the positions a proof needs.
\<close>

declare zeroRunEnd.simps [simp del] emit6.simps [simp del] parseIPv6_loop.simps [simp del]

lemma hexDigits_nth_inj:
  assumes "n < 16" "m < 16" "hexDigits ! n = hexDigits ! m"
  shows "n = m"
proof -
  have d: "distinct hexDigits" by (simp add: hexDigits_def)
  have l: "length hexDigits = 16" by (simp add: hexDigits_def)
  from assms d l show ?thesis by (simp add: nth_eq_iff_index_eq)
qed

lemma hexDigits_nth_not_colon:
  assumes "n < 16"
  shows "hexDigits ! n \<noteq> CHR '':''"
proof -
  have "length hexDigits = 16" by (simp add: hexDigits_def)
  with assms have "hexDigits ! n \<in> set hexDigits"
    by (simp add: nth_mem)
  moreover have "CHR '':'' \<notin> set hexDigits" by (simp add: hexDigits_def)
  ultimately show ?thesis by metis
qed

lemma appendHex_no_colon: "x < 65536 \<Longrightarrow> CHR '':'' \<notin> set (appendHex x)"
proof -
  assume x: "x < 65536"
  then have a: "x div 4096 < 16" by simp
  have b: "x div 256 mod 16 < 16" "x div 16 mod 16 < 16" "x mod 16 < 16" by simp_all
  from a b have "hexDigits ! (x div 4096) \<noteq> CHR '':''"
    "hexDigits ! (x div 256 mod 16) \<noteq> CHR '':''"
    "hexDigits ! (x div 16 mod 16) \<noteq> CHR '':''"
    "hexDigits ! (x mod 16) \<noteq> CHR '':''"
    by (simp_all only: hexDigits_nth_not_colon not_False_eq_True)
  then show ?thesis
    by (auto simp: appendHex_def)
qed

lemma appendHex_not_Nil: "appendHex x \<noteq> []"
  by (simp add: appendHex_def)

lemma nibbles_eq:
  fixes x y :: nat
  assumes "x div 4096 = y div 4096" "x div 256 mod 16 = y div 256 mod 16"
    "x div 16 mod 16 = y div 16 mod 16" "x mod 16 = y mod 16"
  shows "x = y"
proof -
  have e: "z = 4096 * (z div 4096) + 256 * (z div 256 mod 16) + 16 * (z div 16 mod 16) + z mod 16"
    for z :: nat
  proof -
    have 1: "z = 16 * (z div 16) + z mod 16" by simp
    have a: "z div 256 = z div 16 div 16" using div_mult2_eq [of z 16 16] by simp
    have b: "z div 4096 = z div 256 div 16" using div_mult2_eq [of z 256 16] by simp
    have 2: "z div 16 = 16 * (z div 256) + z div 16 mod 16"
      unfolding a by simp
    have 3: "z div 256 = 16 * (z div 4096) + z div 256 mod 16"
      unfolding b by simp
    from 1 2 3 show ?thesis by linarith
  qed
  have "x = 4096 * (x div 4096) + 256 * (x div 256 mod 16) + 16 * (x div 16 mod 16) + x mod 16"
    by (rule e)
  also have "\<dots> = 4096 * (y div 4096) + 256 * (y div 256 mod 16) + 16 * (y div 16 mod 16) + y mod 16"
    using assms by simp
  also have "\<dots> = y" by (rule e [symmetric])
  finally show ?thesis .
qed

lemma appendHex_length:
  "length (appendHex x) = (if x \<ge> 4096 then 4 else if x \<ge> 256 then 3 else if x \<ge> 16 then 2 else 1)"
  by (simp add: appendHex_def)

lemma appendHex_inj:
  assumes x: "x < 65536" and y: "y < 65536" and e: "appendHex x = appendHex y"
  shows "x = y"
proof -
  have bx: "x div 4096 < 16" using x by simp
  have by': "y div 4096 < 16" using y by simp
  have m2: "z div 256 mod 16 < 16" for z :: nat by simp
  have m1: "z div 16 mod 16 < 16" for z :: nat by simp
  have m0: "z mod 16 < 16" for z :: nat by simp
  from e have len: "length (appendHex x) = length (appendHex y)" by simp
  have lx: "length (appendHex x) = (if x \<ge> 4096 then 4 else if x \<ge> 256 then 3 else if x \<ge> 16 then 2 else 1)"
    by (rule appendHex_length)
  have ly: "length (appendHex y) = (if y \<ge> 4096 then 4 else if y \<ge> 256 then 3 else if y \<ge> 16 then 2 else 1)"
    by (rule appendHex_length)
  consider (c4) "x \<ge> 4096" | (c3) "x < 4096" "x \<ge> 256" | (c2) "x < 256" "x \<ge> 16" | (c1) "x < 16"
    by linarith
  then show ?thesis
  proof cases
    case c4
    with len lx ly have y4: "y \<ge> 4096" by (simp split: if_splits)
    from e c4 y4 have h: "hexDigits ! (x div 4096) = hexDigits ! (y div 4096)"
      "hexDigits ! (x div 256 mod 16) = hexDigits ! (y div 256 mod 16)"
      "hexDigits ! (x div 16 mod 16) = hexDigits ! (y div 16 mod 16)"
      "hexDigits ! (x mod 16) = hexDigits ! (y mod 16)"
      by (simp_all add: appendHex_def)
    show ?thesis
      by (rule nibbles_eq [OF hexDigits_nth_inj [OF bx by' h(1)] hexDigits_nth_inj [OF m2 m2 h(2)]
            hexDigits_nth_inj [OF m1 m1 h(3)] hexDigits_nth_inj [OF m0 m0 h(4)]])
  next
    case c3
    with len lx ly have y3: "y < 4096" "y \<ge> 256" by (simp_all split: if_splits)
    from e c3 y3 have h: "hexDigits ! (x div 256 mod 16) = hexDigits ! (y div 256 mod 16)"
      "hexDigits ! (x div 16 mod 16) = hexDigits ! (y div 16 mod 16)"
      "hexDigits ! (x mod 16) = hexDigits ! (y mod 16)"
      by (simp_all add: appendHex_def)
    have z: "x div 4096 = y div 4096" using c3 y3 by simp
    show ?thesis
      by (rule nibbles_eq [OF z hexDigits_nth_inj [OF m2 m2 h(1)]
            hexDigits_nth_inj [OF m1 m1 h(2)] hexDigits_nth_inj [OF m0 m0 h(3)]])
  next
    case c2
    with len lx ly have y2: "y < 256" "y \<ge> 16" by (simp_all split: if_splits)
    from e c2 y2 have h: "hexDigits ! (x div 16 mod 16) = hexDigits ! (y div 16 mod 16)"
      "hexDigits ! (x mod 16) = hexDigits ! (y mod 16)"
      by (simp_all add: appendHex_def)
    have z: "x div 4096 = y div 4096" "x div 256 mod 16 = y div 256 mod 16"
      using c2 y2 by simp_all
    show ?thesis
      by (rule nibbles_eq [OF z hexDigits_nth_inj [OF m1 m1 h(1)] hexDigits_nth_inj [OF m0 m0 h(2)]])
  next
    case c1
    with len lx ly have y1: "y < 16" by (simp split: if_splits)
    from e c1 y1 have h: "hexDigits ! (x mod 16) = hexDigits ! (y mod 16)"
      by (simp add: appendHex_def)
    have "x mod 16 = y mod 16" by (rule hexDigits_nth_inj [OF m0 m0 h])
    with c1 y1 show ?thesis by simp
  qed
qed

section \<open>The text form of a synthesised address\<close>

lemma v6u16_iscsi:
  "v6u16 (iscsiBytes a b c d) 0 = 64768"
  "v6u16 (iscsiBytes a b c d) 1 = 193"
  "v6u16 (iscsiBytes a b c d) (Suc 0) = 193"
  "v6u16 (iscsiBytes a b c d) 2 = 0"
  "v6u16 (iscsiBytes a b c d) 3 = 0"
  "v6u16 (iscsiBytes a b c d) 4 = 0"
  "v6u16 (iscsiBytes a b c d) 5 = 0"
  "v6u16 (iscsiBytes a b c d) 6 = unat a * 256 + unat b"
  "v6u16 (iscsiBytes a b c d) 7 = unat c * 256 + unat d"
  by (simp_all add: v6u16_def iscsiBytes_def)

lemma zeroRunEnd_iscsi:
  "zeroRunEnd (iscsiBytes a b c d) 0 = 0"
  "zeroRunEnd (iscsiBytes a b c d) 1 = 1"
  "zeroRunEnd (iscsiBytes a b c d) (Suc 0) = Suc 0"
  "zeroRunEnd (iscsiBytes a b c d) 8 = 8"
  "zeroRunEnd (iscsiBytes a b c d) 7 = (if unat c * 256 + unat d = 0 then 8 else 7)"
  "zeroRunEnd (iscsiBytes a b c d) 6 =
     (if unat a * 256 + unat b = 0 then (if unat c * 256 + unat d = 0 then 8 else 7) else 6)"
proof -
  show 0: "zeroRunEnd (iscsiBytes a b c d) 0 = 0"
    by (subst zeroRunEnd.simps) (simp add: v6u16_iscsi)
  show 1: "zeroRunEnd (iscsiBytes a b c d) 1 = 1"
    by (subst zeroRunEnd.simps) (simp add: v6u16_iscsi)
  then show "zeroRunEnd (iscsiBytes a b c d) (Suc 0) = Suc 0" by simp
  show 8: "zeroRunEnd (iscsiBytes a b c d) 8 = 8"
    by (subst zeroRunEnd.simps) simp
  show 7: "zeroRunEnd (iscsiBytes a b c d) 7 = (if unat c * 256 + unat d = 0 then 8 else 7)"
    by (subst zeroRunEnd.simps) (simp add: v6u16_iscsi 8)
  show "zeroRunEnd (iscsiBytes a b c d) 6 =
     (if unat a * 256 + unat b = 0 then (if unat c * 256 + unat d = 0 then 8 else 7) else 6)"
    by (subst zeroRunEnd.simps) (simp add: v6u16_iscsi 7)
qed

lemma zeroRunEnd_iscsi_mid:
  "zeroRunEnd (iscsiBytes a b c d) 5 = zeroRunEnd (iscsiBytes a b c d) 6"
  "zeroRunEnd (iscsiBytes a b c d) 4 = zeroRunEnd (iscsiBytes a b c d) 6"
  "zeroRunEnd (iscsiBytes a b c d) 3 = zeroRunEnd (iscsiBytes a b c d) 6"
  "zeroRunEnd (iscsiBytes a b c d) 2 = zeroRunEnd (iscsiBytes a b c d) 6"
proof -
  show 5: "zeroRunEnd (iscsiBytes a b c d) 5 = zeroRunEnd (iscsiBytes a b c d) 6"
    by (subst zeroRunEnd.simps) (simp add: v6u16_iscsi)
  show 4: "zeroRunEnd (iscsiBytes a b c d) 4 = zeroRunEnd (iscsiBytes a b c d) 6"
    by (subst zeroRunEnd.simps) (simp add: v6u16_iscsi 5)
  show 3: "zeroRunEnd (iscsiBytes a b c d) 3 = zeroRunEnd (iscsiBytes a b c d) 6"
    by (subst zeroRunEnd.simps) (simp add: v6u16_iscsi 4)
  show "zeroRunEnd (iscsiBytes a b c d) 2 = zeroRunEnd (iscsiBytes a b c d) 6"
    by (subst zeroRunEnd.simps) (simp add: v6u16_iscsi 3)
qed

lemma upt8: "[0..<8] = [0, 1, 2, 3, 4, 5, 6, 7]"
  by (simp add: upt_rec)

lemma findZeros_iscsi:
  "findZeros (iscsiBytes a b c d) = (2, zeroRunEnd (iscsiBytes a b c d) 6)"
  by (simp add: findZeros_def upt8 zeroRunEnd_iscsi zeroRunEnd_iscsi_mid Let_def)


lemmas emit6_unfold =
  emit6.simps [of _ _ _ 0] emit6.simps [of _ _ _ 1] emit6.simps [of _ _ _ "Suc 0"]
  emit6.simps [of _ _ _ 2] emit6.simps [of _ _ _ 6] emit6.simps [of _ _ _ 7]
  emit6.simps [of _ _ _ 8]

lemma appendHex_prefix_groups: "appendHex 64768 = ''fd00''" "appendHex 193 = ''c1''"
  by (simp_all add: appendHex_def hexDigits_def)

lemma string6_iscsi:
  "string6 (iscsiBytes a b c d) =
     ''fd00:c1::'' @ iscsiTail (unat a * 256 + unat b) (unat c * 256 + unat d)"
proof -
  define hi where "hi = unat a * 256 + unat b"
  define lo where "lo = unat c * 256 + unat d"
  define ip where "ip = iscsiBytes a b c d"
  have g: "v6u16 ip 0 = 64768" "v6u16 ip (Suc 0) = 193" "v6u16 ip 6 = hi" "v6u16 ip 7 = lo"
    by (simp_all add: ip_def hi_def lo_def v6u16_iscsi)
  have ze: "zeroRunEnd ip 6 = (if hi = 0 then (if lo = 0 then 8 else 7) else 6)"
    by (simp add: ip_def hi_def lo_def zeroRunEnd_iscsi)
  have fz: "findZeros ip = (2, zeroRunEnd ip 6)"
    by (simp add: ip_def findZeros_iscsi)
  have e0: "emit6 ip 2 ze 0 = ''fd00:c1'' @ emit6 ip 2 ze (Suc (Suc 0))" for ze
    by (simp add: emit6.simps [of _ _ _ 0] emit6.simps [of _ _ _ "Suc 0"] g
        appendHex_prefix_groups)
  have e8: "emit6 ip 2 ze 8 = []" for ze
    by (simp add: emit6.simps [of _ _ _ 8])
  have e7: "emit6 ip 2 ze 7 = '':'' @ appendHex lo" for ze
    by (simp add: emit6.simps [of _ _ _ 7] e8 g)
  have e26: "emit6 ip 2 6 (Suc (Suc 0)) = ''::'' @ appendHex hi @ '':'' @ appendHex lo"
    by (simp add: emit6.simps [of _ _ _ "Suc (Suc 0)"] e7 g)
  have e27: "emit6 ip 2 7 (Suc (Suc 0)) = ''::'' @ appendHex lo"
    by (simp add: emit6.simps [of _ _ _ "Suc (Suc 0)"] e8 g)
  have e28: "emit6 ip 2 8 (Suc (Suc 0)) = ''::''"
    by (simp add: emit6.simps [of _ _ _ "Suc (Suc 0)"])
  have "string6 ip = ''fd00:c1::'' @ iscsiTail hi lo"
    by (simp add: string6_def fz ze e0 e26 e27 e28 iscsiTail_def)
  then show ?thesis by (simp add: ip_def hi_def lo_def)
qed

lemma iscsiTail_inj:
  assumes "hi < 65536" "lo < 65536" "hi' < 65536" "lo' < 65536"
    and e: "iscsiTail hi lo = iscsiTail hi' lo'"
  shows "hi = hi' \<and> lo = lo'"
proof -
  have nc: "CHR '':'' \<notin> set (appendHex hi)" "CHR '':'' \<notin> set (appendHex lo)"
    "CHR '':'' \<notin> set (appendHex hi')" "CHR '':'' \<notin> set (appendHex lo')"
    using assms by (simp_all add: appendHex_no_colon)
  have c: "CHR '':'' \<in> set (appendHex p @ '':'' @ appendHex q)" for p q by simp
  show ?thesis
  proof (cases "hi = 0")
    case True
    note hi0 = this
    show ?thesis
    proof (cases "hi' = 0")
      case True
      with hi0 e have "(if lo = 0 then [] else appendHex lo) = (if lo' = 0 then [] else appendHex lo')"
        by (simp add: iscsiTail_def)
      then have "lo = lo'"
        using appendHex_inj [OF assms(2) assms(4)] appendHex_not_Nil [of lo]
          appendHex_not_Nil [of lo']
        by (auto split: if_splits)
      with hi0 True show ?thesis by simp
    next
      case False
      with hi0 e have "(if lo = 0 then [] else appendHex lo) = appendHex hi' @ '':'' @ appendHex lo'"
        by (simp add: iscsiTail_def)
      then have "CHR '':'' \<in> set (if lo = 0 then [] else appendHex lo)"
        using c by simp
      with nc show ?thesis by (simp split: if_splits)
    qed
  next
    case False
    note hin = this
    show ?thesis
    proof (cases "hi' = 0")
      case True
      with hin e have "appendHex hi @ '':'' @ appendHex lo = (if lo' = 0 then [] else appendHex lo')"
        by (simp add: iscsiTail_def)
      then have "CHR '':'' \<in> set (if lo' = 0 then [] else appendHex lo')"
        using c [of hi lo] by simp
      with nc show ?thesis by (simp split: if_splits)
    next
      case False
      with hin e have "appendHex hi @ CHR '':'' # appendHex lo = appendHex hi' @ CHR '':'' # appendHex lo'"
        by (simp add: iscsiTail_def)
      with nc have "appendHex hi = appendHex hi' \<and> appendHex lo = appendHex lo'"
        by (simp add: append_Cons_eq_iff)
      then show ?thesis
        using appendHex_inj [OF assms(1) assms(3)] appendHex_inj [OF assms(2) assms(4)] by blast
    qed
  qed
qed

lemma byte_lt: "unat (a :: byte) < 256"
proof -
  have "unat a < 2 ^ LENGTH(8)" by (rule unsigned_less)
  then show ?thesis by simp
qed

lemma byte_pair_inj:
  fixes a b a' b' :: byte
  assumes "unat a * 256 + unat b = unat a' * 256 + unat b'"
  shows "a = a' \<and> b = b'"
proof -
  have d: "(unat x * 256 + unat y) div 256 = unat x" for x y :: byte
    using byte_lt [of y] by simp
  have m: "(unat x * 256 + unat y) mod 256 = unat y" for x y :: byte
    using byte_lt [of y] by simp
  from assms have "unat a = unat a'" using d [of a b] d [of a' b'] by simp
  moreover from assms have "unat b = unat b'" using m [of a b] m [of a' b'] by simp
  ultimately show ?thesis by (simp add: word_unat_eq_iff)
qed

lemma byte_pair_bound:
  fixes a b :: byte
  shows "unat a * 256 + unat b < 65536"
proof -
  have "unat a \<le> 255" using byte_lt [of a] by simp
  then have "unat a * 256 \<le> 255 * 256" by (rule mult_le_mono1)
  with byte_lt [of b] show ?thesis by simp
qed

lemma string6_iscsi_inj:
  assumes "string6 (iscsiBytes a b c d) = string6 (iscsiBytes a' b' c' d')"
  shows "a = a' \<and> b = b' \<and> c = c' \<and> d = d'"
proof -
  from assms have "iscsiTail (unat a * 256 + unat b) (unat c * 256 + unat d)
      = iscsiTail (unat a' * 256 + unat b') (unat c' * 256 + unat d')"
    by (simp add: string6_iscsi)
  from iscsiTail_inj [OF byte_pair_bound byte_pair_bound byte_pair_bound byte_pair_bound this]
  show ?thesis using byte_pair_inj by blast
qed

section \<open>Parsing concrete addresses\<close>

lemmas ip_eval = ParseIP_def ParseAddr_def parseIPv4_def parseIPv6_def hexVal_def byteOf_def
  expandEllipsis_def zero16_def v4InV6Prefix_def isDigit_def parseIPv6_loop.simps

lemma ParseIP_IscsiIpv6Prefix:
  "ParseIP IscsiIpv6Prefix = [253, 0, 0, 193, 0, 0, 0, 0, 0, 0, 0, 0, 0, 0, 0, 0]"
  by (simp add: IscsiIpv6Prefix_def ip_eval)

lemma To4_Nil_or_4: "To4 ip = [] \<or> length (To4 ip) = 4"
  by (simp add: To4_def)

lemma length4_list: "length xs = 4 \<Longrightarrow> \<exists>a b c d. xs = [a, b, c, d]"
  by (auto simp: length_Suc_conv numeral_eq_Suc)

lemma To4_idem: "length ip = 4 \<Longrightarrow> To4 ip = ip"
  by (simp add: To4_def)

lemma To4_iscsiBytes: "To4 (iscsiBytes a b c d) = []"
  by (simp add: To4_def iscsiBytes_def)

lemma IP_String_iscsiBytes: "IP_String (iscsiBytes a b c d) = string6 (iscsiBytes a b c d)"
  by (simp add: IP_String_def To4_iscsiBytes) (simp add: iscsiBytes_def)

lemma Convert_of_octets:
  assumes "To4 (ParseIP s) = [a, b, c, d]"
  shows "ConvertIscsiIpFromIpv4ToIpv6 s = Inr (IP_String (iscsiBytes a b c d))"
  using assms
  by (simp add: ConvertIscsiIpFromIpv4ToIpv6_def Let_def ParseIP_IscsiIpv6Prefix To16_def
      To4_idem copyAt_def iscsiBytes_def)

lemma ParseIP_ex1: "ParseIP ''203.0.113.5'' = [0, 0, 0, 0, 0, 0, 0, 0, 0, 0, 255, 255, 203, 0, 113, 5]"
  by (simp add: ip_eval)

lemma ParseIP_ex2: "ParseIP ''::ffff:203.0.113.5'' = [0, 0, 0, 0, 0, 0, 0, 0, 0, 0, 255, 255, 203, 0, 113, 5]"
  by (simp add: ip_eval upt_rec)

lemma ParseIP_ex3: "ParseIP ''fd00:c1::cb00:7105'' = [253, 0, 0, 193, 0, 0, 0, 0, 0, 0, 0, 0, 203, 0, 113, 5]"
  by (simp add: ip_eval)

lemma ParseIP_ex4: "ParseIP ''203.0.113.256'' = []"
  by (simp add: ip_eval)

section \<open>iSCSI address synthesis: the claim\<close>

text \<open>
  C5. \<open>ConvertIscsiIpFromIpv4ToIpv6\<close> is a function of its input. When the input does
  not parse as an IPv4 address (\<open>net.ParseIP\<close> followed by \<open>To4\<close> gives nil) it fails
  with the error that names the input. When it does, with the octets \<open>a, b, c, d\<close>, the
  result is the text form of the sixteen bytes made of the first twelve bytes of the
  parsed prefix \<open>fd00:00c1::\<close>, which are \<open>fd 00 00 c1\<close> and eight zeros, followed by
  the four octets. Two inputs that parse as IPv4 addresses and give the same result have
  the same four octets: distinct IPv4 addresses give distinct results.
\<close>

theorem ConvertIscsiIpFromIpv4ToIpv6_synthesis:
  "(To4 (ParseIP s) = [] \<longrightarrow> ConvertIscsiIpFromIpv4ToIpv6 s = Inl (InvalidIscsiIp s))
   \<and> (To4 (ParseIP s) \<noteq> [] \<longrightarrow>
        (\<exists>a b c d. To4 (ParseIP s) = [a, b, c, d]
           \<and> ConvertIscsiIpFromIpv4ToIpv6 s =
               Inr (IP_String (take 12 (ParseIP IscsiIpv6Prefix) @ [a, b, c, d]))
           \<and> take 12 (ParseIP IscsiIpv6Prefix) = [253, 0, 0, 193, 0, 0, 0, 0, 0, 0, 0, 0]))
   \<and> (\<forall>t. To4 (ParseIP s) \<noteq> [] \<and> To4 (ParseIP t) \<noteq> []
          \<and> ConvertIscsiIpFromIpv4ToIpv6 s = ConvertIscsiIpFromIpv4ToIpv6 t
          \<longrightarrow> To4 (ParseIP s) = To4 (ParseIP t))"
proof (intro conjI impI allI)
  assume "To4 (ParseIP s) = []"
  then show "ConvertIscsiIpFromIpv4ToIpv6 s = Inl (InvalidIscsiIp s)"
    by (simp add: ConvertIscsiIpFromIpv4ToIpv6_def)
next
  assume ne: "To4 (ParseIP s) \<noteq> []"
  with To4_Nil_or_4 [of "ParseIP s"] have "length (To4 (ParseIP s)) = 4" by simp
  then obtain a b c d where o: "To4 (ParseIP s) = [a, b, c, d]"
    using length4_list by blast
  have p: "take 12 (ParseIP IscsiIpv6Prefix) = [253, 0, 0, 193, 0, 0, 0, 0, 0, 0, 0, 0]"
    by (simp add: ParseIP_IscsiIpv6Prefix)
  from Convert_of_octets [OF o] p o
  show "\<exists>a b c d. To4 (ParseIP s) = [a, b, c, d]
           \<and> ConvertIscsiIpFromIpv4ToIpv6 s =
               Inr (IP_String (take 12 (ParseIP IscsiIpv6Prefix) @ [a, b, c, d]))
           \<and> take 12 (ParseIP IscsiIpv6Prefix) = [253, 0, 0, 193, 0, 0, 0, 0, 0, 0, 0, 0]"
    by (simp add: iscsiBytes_def)
next
  fix t
  assume h: "To4 (ParseIP s) \<noteq> [] \<and> To4 (ParseIP t) \<noteq> []
          \<and> ConvertIscsiIpFromIpv4ToIpv6 s = ConvertIscsiIpFromIpv4ToIpv6 t"
  from h To4_Nil_or_4 [of "ParseIP s"] have "length (To4 (ParseIP s)) = 4" by simp
  then obtain a b c d where o: "To4 (ParseIP s) = [a, b, c, d]"
    using length4_list by blast
  from h To4_Nil_or_4 [of "ParseIP t"] have "length (To4 (ParseIP t)) = 4" by simp
  then obtain a' b' c' d' where o': "To4 (ParseIP t) = [a', b', c', d']"
    using length4_list by blast
  from h Convert_of_octets [OF o] Convert_of_octets [OF o']
  have "string6 (iscsiBytes a b c d) = string6 (iscsiBytes a' b' c' d')"
    by (simp add: IP_String_iscsiBytes)
  then have "a = a' \<and> b = b' \<and> c = c' \<and> d = d'" by (rule string6_iscsi_inj)
  with o o' show "To4 (ParseIP s) = To4 (ParseIP t)" by simp
qed

theorem ConvertIscsiIpFromIpv4ToIpv6_synthesis_witness:
  "ConvertIscsiIpFromIpv4ToIpv6 ''203.0.113.5'' = Inr ''fd00:c1::cb00:7105''
   \<and> ParseIP ''fd00:c1::cb00:7105'' = [253, 0, 0, 193, 0, 0, 0, 0, 0, 0, 0, 0, 203, 0, 113, 5]
   \<and> ConvertIscsiIpFromIpv4ToIpv6 ''203.0.113.256'' = Inl (InvalidIscsiIp ''203.0.113.256'')
   \<and> ConvertIscsiIpFromIpv4ToIpv6 ''::ffff:203.0.113.5'' = ConvertIscsiIpFromIpv4ToIpv6 ''203.0.113.5''
   \<and> To4 (ParseIP ''::ffff:203.0.113.5'') = To4 (ParseIP ''203.0.113.5'')"
proof -
  have o: "To4 (ParseIP ''203.0.113.5'') = [203, 0, 113, 5]"
    by (simp add: ParseIP_ex1 To4_def)
  have o2: "To4 (ParseIP ''::ffff:203.0.113.5'') = [203, 0, 113, 5]"
    by (simp add: ParseIP_ex2 To4_def)
  have n: "To4 (ParseIP ''203.0.113.256'') = []"
    by (simp add: ParseIP_ex4 To4_def)
  have s: "IP_String ([253, 0, 0, 193, 0, 0, 0, 0, 0, 0, 0, 0] @ [203, 0, 113, 5]) = ''fd00:c1::cb00:7105''"
    using IP_String_iscsiBytes [of 203 0 113 5] string6_iscsi [of 203 0 113 5]
    by (simp add: iscsiBytes_def iscsiTail_def appendHex_def hexDigits_def)
  from ConvertIscsiIpFromIpv4ToIpv6_synthesis [of "''203.0.113.5''"] o s
  have 1: "ConvertIscsiIpFromIpv4ToIpv6 ''203.0.113.5'' = Inr ''fd00:c1::cb00:7105''"
    by auto
  from ConvertIscsiIpFromIpv4ToIpv6_synthesis [of "''203.0.113.256''"] n
  have 2: "ConvertIscsiIpFromIpv4ToIpv6 ''203.0.113.256'' = Inl (InvalidIscsiIp ''203.0.113.256'')"
    by blast
  from ConvertIscsiIpFromIpv4ToIpv6_synthesis [of "''::ffff:203.0.113.5''"] o2 s
  have 3: "ConvertIscsiIpFromIpv4ToIpv6 ''::ffff:203.0.113.5'' = Inr ''fd00:c1::cb00:7105''"
    by auto
  from 1 2 3 o o2 ParseIP_ex3 show ?thesis by simp
qed

section \<open>Searching and slicing\<close>

lemma IndexByte_notin: "c \<notin> set s \<Longrightarrow> IndexByte s c = - 1"
  by (induction s) (auto simp: Let_def)

lemma IndexByte_append: "c \<notin> set a \<Longrightarrow> IndexByte (a @ c # r) c = int (length a)"
  by (induction a) (auto simp: Let_def)

lemma LastIndexByte_notin: "c \<notin> set s \<Longrightarrow> LastIndexByte s c = - 1"
  by (induction s) (auto simp: Let_def)

lemma LastIndexByte_append: "c \<notin> set b \<Longrightarrow> LastIndexByte (p @ c # b) c = int (length p)"
  by (induction p) (auto simp: Let_def LastIndexByte_notin)

lemma takeWhile_first: "c \<notin> set a \<Longrightarrow> takeWhile (\<lambda>x. x \<noteq> c) (a @ c # r) = a"
  by (induction a) auto

lemma colon_split:
  assumes f: "0 < IndexByte s c"
    and l: "LastIndexByte s c < int (length s) - 1"
    and n: "IndexByte s c \<noteq> LastIndexByte s c"
  shows "\<exists>fs m p. s = fs @ c # m @ c # p \<and> fs \<noteq> [] \<and> c \<notin> set fs \<and> p \<noteq> [] \<and> c \<notin> set p"
proof -
  from f have cs: "c \<in> set s" using IndexByte_notin [of c s] by force
  from split_list_first [OF cs] obtain a r where a: "s = a @ c # r" "c \<notin> set a" by blast
  from split_list_last [OF cs] obtain q b where q: "s = q @ c # b" "c \<notin> set b" by blast
  have fi: "IndexByte s c = int (length a)" using a IndexByte_append by simp
  have li: "LastIndexByte s c = int (length q)" using q LastIndexByte_append by simp
  from f fi have a0: "a \<noteq> []" by auto
  from l li q(1) have b0: "b \<noteq> []" by auto
  from n fi li have ne: "length a \<noteq> length q" by simp
  from a(1) q(1) have "a @ c # r = q @ c # b" by simp
  then obtain us where us: "(a = q @ us \<and> us @ c # r = c # b) \<or> (a @ us = q \<and> c # r = us @ c # b)"
    by (auto simp: append_eq_append_conv2)
  then show ?thesis
  proof
    assume h: "a = q @ us \<and> us @ c # r = c # b"
    with ne have "us \<noteq> []" by auto
    with h have "hd us = c" by (cases us) auto
    with h \<open>us \<noteq> []\<close> have "c \<in> set a" by (cases us) auto
    with a(2) show ?thesis by simp
  next
    assume h: "a @ us = q \<and> c # r = us @ c # b"
    with ne have "us \<noteq> []" by auto
    with h obtain m where m: "us = c # m" by (cases us) auto
    with h have "s = a @ c # m @ c # b" using q(1) by auto
    with a0 b0 a(2) q(2) show ?thesis by blast
  qed
qed

lemma slice_mid:
  "slice (fs @ c # m @ c # p) (int (length fs) + 1) (int (length fs) + 1 + int (length m)) = Some m"
  by (simp add: slice_def nat_add_distrib)

lemma slice_head: "slice (fs @ r) 0 (int (length fs)) = Some fs"
  by (simp add: slice_def)

lemma slice_tail:
  "slice (fs @ c # m @ c # p) (int (length fs) + 1 + int (length m) + 1)
     (int (length (fs @ c # m @ c # p))) = Some p"
  by (simp add: slice_def nat_add_distrib)

section \<open>The shape of an accepted handle\<close>

text \<open>
  An identifier passes the colon test exactly when it is \<open>fs:m:p\<close> with \<open>fs\<close> and
  \<open>p\<close> non-empty and free of colons; what \<open>ValidateFssId\<close> returns then depends on
  the middle segment \<open>m\<close> alone.
\<close>

lemma ParseIP_Nil: "ParseIP [] = []"
  by (simp add: ParseIP_def ParseAddr_def)

lemma ValidateDNSName_Nil: "\<not> ValidateDNSName []"
  by (simp add: ValidateDNSName_def matchWhole_def dnsPattern_def Plus_def Let_def)

lemma Trim_Nil: "Trim [] cs = []"
  by (simp add: Trim_def)

lemma ValidateFssId_split:
  assumes "fs \<noteq> []" "CHR '':'' \<notin> set fs" "p \<noteq> []" "CHR '':'' \<notin> set p"
  shows "ValidateFssId (fs @ CHR '':'' # m @ CHR '':'' # p) =
     (if ParseIP (Trim m ''[]'') \<noteq> [] \<or> ValidateDNSName m
      then Some \<lparr>FilesystemOcid = fs, MountTargetIPAddress = m, FsExportPath = p\<rparr>
      else Some emptyHandle)"
proof -
  let ?s = "fs @ CHR '':'' # m @ CHR '':'' # p"
  have fi: "IndexByte ?s CHR '':'' = int (length fs)"
    using assms(2) by (rule IndexByte_append)
  have "LastIndexByte ((fs @ CHR '':'' # m) @ CHR '':'' # p) CHR '':'' = int (length (fs @ CHR '':'' # m))"
    using assms(4) by (rule LastIndexByte_append)
  then have li: "LastIndexByte ?s CHR '':'' = int (length fs) + 1 + int (length m)" by simp
  have s1: "slice ?s (int (length fs) + 1) (int (length fs) + 1 + int (length m)) = Some m"
    by (rule slice_mid)
  have s2: "slice ?s 0 (int (length fs)) = Some fs" by (rule slice_head)
  have s3: "slice ?s (int (length fs) + 1 + int (length m) + 1) (int (length ?s)) = Some p"
    by (rule slice_tail)
  have g: "0 < int (length fs)" "int (length fs) + 1 + int (length m) < int (length ?s) - 1"
    using assms(1) assms(3) by auto
  have ne: "?s \<noteq> []" by simp
  show ?thesis
    unfolding ValidateFssId_def Let_def fi li
    using g s1 s2 s3 ne by (simp add: emptyHandle_def)
qed

lemma valid_not_Nil: "ParseIP (Trim m ''[]'') \<noteq> [] \<or> ValidateDNSName m \<Longrightarrow> m \<noteq> []"
  using ParseIP_Nil ValidateDNSName_Nil Trim_Nil by force

lemma ValidateFssId_cases:
  "ValidateFssId ident = Some emptyHandle
   \<or> (\<exists>fs m p. ident = fs @ CHR '':'' # m @ CHR '':'' # p
         \<and> fs \<noteq> [] \<and> CHR '':'' \<notin> set fs \<and> p \<noteq> [] \<and> CHR '':'' \<notin> set p \<and> m \<noteq> []
         \<and> (ParseIP (Trim m ''[]'') \<noteq> [] \<or> ValidateDNSName m)
         \<and> ValidateFssId ident =
             Some \<lparr>FilesystemOcid = fs, MountTargetIPAddress = m, FsExportPath = p\<rparr>)"
proof (cases "0 < IndexByte ident CHR '':'' \<and> LastIndexByte ident CHR '':'' < int (length ident) - 1
    \<and> IndexByte ident CHR '':'' \<noteq> LastIndexByte ident CHR '':''")
  case False
  then show ?thesis
    by (auto simp: ValidateFssId_def Let_def emptyHandle_def)
next
  case True
  then obtain fs m p where d: "ident = fs @ CHR '':'' # m @ CHR '':'' # p" "fs \<noteq> []"
    "CHR '':'' \<notin> set fs" "p \<noteq> []" "CHR '':'' \<notin> set p"
    using colon_split [of ident "CHR '':''"] by blast
  show ?thesis
  proof (cases "ParseIP (Trim m ''[]'') \<noteq> [] \<or> ValidateDNSName m")
    case True
    then have "m \<noteq> []" by (rule valid_not_Nil)
    with True d ValidateFssId_split [OF d(2) d(3) d(4) d(5), of m] show ?thesis
      by auto
  next
    case False
    with d ValidateFssId_split [OF d(2) d(3) d(4) d(5), of m] show ?thesis by simp
  qed
qed

lemma ParseIP_ex5: "ParseIP ''fd00:00c1::a9fe:202'' = [253, 0, 0, 193, 0, 0, 0, 0, 0, 0, 0, 0, 169, 254, 2, 2]"
  by (simp add: ip_eval upt_rec)

lemma ParseIP_ex6: "ParseIP ''10.0.0.5'' = [0, 0, 0, 0, 0, 0, 0, 0, 0, 0, 255, 255, 10, 0, 0, 5]"
  by (simp add: ip_eval)

lemma Trim_ex5: "Trim ''[fd00:00c1::a9fe:202]'' ''[]'' = ''fd00:00c1::a9fe:202''"
  by (simp add: Trim_def)

lemma Trim_ex6: "Trim ''10.0.0.5'' ''[]'' = ''10.0.0.5''"
  by (simp add: Trim_def)

lemma ValidateFssId_ex5:
  "ValidateFssId ''ocid1.filesystem.oc1..xxxx:[fd00:00c1::a9fe:202]:/export/path'' =
     Some \<lparr>FilesystemOcid = ''ocid1.filesystem.oc1..xxxx'',
           MountTargetIPAddress = ''[fd00:00c1::a9fe:202]'',
           FsExportPath = ''/export/path''\<rparr>"
  using ValidateFssId_split [of "''ocid1.filesystem.oc1..xxxx''" "''/export/path''"
      "''[fd00:00c1::a9fe:202]''"]
  by (simp add: Trim_ex5 ParseIP_ex5)

lemma ValidateFssId_ex6:
  "ValidateFssId ''ocid1.filesystem.oc1..xxxx:10.0.0.5:/export/path'' =
     Some \<lparr>FilesystemOcid = ''ocid1.filesystem.oc1..xxxx'',
           MountTargetIPAddress = ''10.0.0.5'',
           FsExportPath = ''/export/path''\<rparr>"
  using ValidateFssId_split [of "''ocid1.filesystem.oc1..xxxx''" "''/export/path''"
      "''10.0.0.5''"]
  by (simp add: Trim_ex6 ParseIP_ex6)

section \<open>File storage volume handles: totality and field extraction\<close>



text \<open>
  C6. When the first colon of the input is not at position 0, the last colon is not at the
  final position, the two are distinct, and the segment between them is an IP literal once
  leading and trailing square brackets are trimmed, or is a DNS name, then
  \<open>ValidateFssId\<close> returns the handle whose \<open>FilesystemOcid\<close> is the text before the
  first colon, whose \<open>FsExportPath\<close> is the text after the last colon, and whose
  \<open>MountTargetIPAddress\<close> is the segment between them exactly as it is written: the
  brackets are trimmed for the validity test only and are kept in the field, so that the
  input is the three fields joined by colons.
\<close>

theorem ValidateFssId_accepted_fields:
  assumes "0 < IndexByte ident CHR '':''"
    and "LastIndexByte ident CHR '':'' < int (length ident) - 1"
    and "IndexByte ident CHR '':'' \<noteq> LastIndexByte ident CHR '':''"
    and "slice ident (IndexByte ident CHR '':'' + 1) (LastIndexByte ident CHR '':'') = Some mid"
    and "ParseIP (Trim mid ''[]'') \<noteq> [] \<or> ValidateDNSName mid"
  shows "\<exists>h. ValidateFssId ident = Some h
     \<and> FilesystemOcid h = takeWhile (\<lambda>c. c \<noteq> CHR '':'') ident
     \<and> FsExportPath h = rev (takeWhile (\<lambda>c. c \<noteq> CHR '':'') (rev ident))
     \<and> MountTargetIPAddress h = mid
     \<and> ident = FilesystemOcid h @ '':'' @ mid @ '':'' @ FsExportPath h"
proof -
  from colon_split [OF assms(1) assms(2) assms(3)]
  obtain fs m p where d: "ident = fs @ CHR '':'' # m @ CHR '':'' # p" "fs \<noteq> []"
    "CHR '':'' \<notin> set fs" "p \<noteq> []" "CHR '':'' \<notin> set p"
    by blast
  have fi: "IndexByte ident CHR '':'' = int (length fs)"
    unfolding d(1) using d(3) by (rule IndexByte_append)
  have "LastIndexByte ((fs @ CHR '':'' # m) @ CHR '':'' # p) CHR '':'' = int (length (fs @ CHR '':'' # m))"
    using d(5) by (rule LastIndexByte_append)
  then have li: "LastIndexByte ident CHR '':'' = int (length fs) + 1 + int (length m)"
    by (simp add: d(1))
  from assms(4) have "mid = m"
    unfolding fi li unfolding d(1) by (simp add: slice_mid)
  with assms(5) have v: "ParseIP (Trim m ''[]'') \<noteq> [] \<or> ValidateDNSName m" by simp
  have r: "ValidateFssId ident =
      Some \<lparr>FilesystemOcid = fs, MountTargetIPAddress = m, FsExportPath = p\<rparr>"
    unfolding d(1) using ValidateFssId_split [OF d(2) d(3) d(4) d(5), of m] v by simp
  have t1: "takeWhile (\<lambda>c. c \<noteq> CHR '':'') ident = fs"
    unfolding d(1) using d(3) by (rule takeWhile_first)
  have "rev ident = rev p @ CHR '':'' # rev (fs @ CHR '':'' # m)"
    by (simp add: d(1))
  moreover have "CHR '':'' \<notin> set (rev p)" using d(5) by simp
  ultimately have "takeWhile (\<lambda>c. c \<noteq> CHR '':'') (rev ident) = rev p"
    using takeWhile_first [of "CHR '':''" "rev p" "rev (fs @ CHR '':'' # m)"] by simp
  then have t2: "rev (takeWhile (\<lambda>c. c \<noteq> CHR '':'') (rev ident)) = p" by simp
  from r t1 t2 \<open>mid = m\<close> d(1) show ?thesis by simp
qed

theorem ValidateFssId_accepted_fields_witness:
  "\<exists>h. ValidateFssId ''ocid1.filesystem.oc1..xxxx:[fd00:00c1::a9fe:202]:/export/path'' = Some h
     \<and> FilesystemOcid h = ''ocid1.filesystem.oc1..xxxx''
     \<and> FsExportPath h = ''/export/path''
     \<and> MountTargetIPAddress h = ''[fd00:00c1::a9fe:202]''"
  using ValidateFssId_accepted_fields
    [of "''ocid1.filesystem.oc1..xxxx:[fd00:00c1::a9fe:202]:/export/path''"
      "''[fd00:00c1::a9fe:202]''"]
  by (auto simp add: slice_def Trim_ex5 ParseIP_ex5)

text \<open>
  The handle \<open>ocid1.filesystem.oc1..xxxx:[fd00:00c1::a9fe:202]:/export/path\<close> is
  accepted, and its \<open>MountTargetIPAddress\<close> is \<open>[fd00:00c1::a9fe:202]\<close>, brackets
  included, not the trimmed text \<open>fd00:00c1::a9fe:202\<close> that was parsed.
\<close>

theorem ValidateFssId_keeps_brackets:
  "ValidateFssId ''ocid1.filesystem.oc1..xxxx:[fd00:00c1::a9fe:202]:/export/path'' =
     Some \<lparr>FilesystemOcid = ''ocid1.filesystem.oc1..xxxx'',
           MountTargetIPAddress = ''[fd00:00c1::a9fe:202]'',
           FsExportPath = ''/export/path''\<rparr>
   \<and> Trim ''[fd00:00c1::a9fe:202]'' ''[]'' = ''fd00:00c1::a9fe:202''
   \<and> ParseIP (Trim ''[fd00:00c1::a9fe:202]'' ''[]'') \<noteq> []
   \<and> ''[fd00:00c1::a9fe:202]'' \<noteq> Trim ''[fd00:00c1::a9fe:202]'' ''[]''"
  by (simp add: ValidateFssId_ex5 Trim_ex5 ParseIP_ex5)

section \<open>Addresses contain no brackets\<close>

text \<open>
  A byte that is neither a hexadecimal digit nor a colon nor a dot makes both parsers
  fail, wherever it stands; so the text of an address that \<open>ParseIP\<close> accepts has no
  square bracket, and trimming brackets leaves it as it is.
\<close>

lemma parseIPv4_loop_bad:
  "c \<in> set cs \<Longrightarrow> \<not> isDigit c \<Longrightarrow> c \<noteq> CHR ''.'' \<Longrightarrow>
     parseIPv4_loop s i val pos digLen flds cs = None"
  by (induction cs arbitrary: i val pos digLen flds) (auto simp: Let_def)

lemma parseIPv4_bad: "c \<in> set s \<Longrightarrow> \<not> isDigit c \<Longrightarrow> c \<noteq> CHR ''.'' \<Longrightarrow> parseIPv4 s = None"
  by (simp add: parseIPv4_def parseIPv4_loop_bad)

lemma hexVal_None_not_digit: "hexVal c = None \<Longrightarrow> \<not> isDigit c"
  by (auto simp: hexVal_def isDigit_def split: if_splits)

lemma scanHex_prefix:
  "scanHex off acc s = Some (a, n) \<Longrightarrow>
     off \<le> n \<and> n - off \<le> length s \<and> (\<forall>c \<in> set (take (n - off) s). hexVal c \<noteq> None)"
proof (induction s arbitrary: off acc)
  case Nil
  then show ?case by simp
next
  case (Cons x xs)
  show ?case
  proof (cases "hexVal x")
    case None
    with Cons.prems show ?thesis by simp
  next
    case (Some d)
    with Cons.prems have r: "scanHex (off + 1) (acc * 16 + d) xs = Some (a, n)"
      by (simp add: Let_def split: if_splits)
    from Cons.IH [OF r] have ih: "off + 1 \<le> n" "n - (off + 1) \<le> length xs"
      "\<forall>c \<in> set (take (n - (off + 1)) xs). hexVal c \<noteq> None" by auto
    from ih(1) have e: "n - off = Suc (n - (off + 1))" by simp
    from ih Some show ?thesis unfolding e by auto
  qed
qed

lemma scanHex_bad:
  assumes "scanHex 0 0 s = Some (a, n)" "c \<in> set s" "hexVal c = None"
  shows "c \<in> set (drop n s)"
proof -
  from scanHex_prefix [OF assms(1)] have "\<forall>x \<in> set (take n s). hexVal x \<noteq> None" by simp
  with assms(3) have "c \<notin> set (take n s)" by auto
  moreover from assms(2) have "c \<in> set (take n s @ drop n s)" by simp
  ultimately show ?thesis by (simp del: append_take_drop_id)
qed

lemma parseIPv6_loop_bad:
  "c \<in> set s \<Longrightarrow> hexVal c = None \<Longrightarrow> c \<noteq> CHR '':'' \<Longrightarrow> c \<noteq> CHR ''.'' \<Longrightarrow>
     (case parseIPv6_loop ip i e s of None \<Rightarrow> True | Some (ip', i', e', rest) \<Rightarrow> c \<in> set rest)"
proof (induction ip i e s rule: parseIPv6_loop.induct)
  case (1 ip i ellipsis s)
  show ?case
  proof (cases "i < 16")
    case False
    with 1 show ?thesis by (simp add: parseIPv6_loop.simps)
  next
    case i16: True
    show ?thesis
    proof (cases "scanHex 0 0 s")
      case None
      with i16 show ?thesis by (simp add: parseIPv6_loop.simps [of ip i ellipsis s])
    next
      case (Some ao)
      obtain acc off where ao: "ao = (acc, off)" by (cases ao)
      note sh = Some [unfolded ao]
      from scanHex_bad [OF sh "1.prems"(1) "1.prems"(2)] have cd: "c \<in> set (drop off s)" .
      then obtain r0 rs where r: "drop off s = r0 # rs" by (cases "drop off s") auto
      have v4: "parseIPv4 s = None"
        using "1.prems" hexVal_None_not_digit by (simp add: parseIPv4_bad)
      show ?thesis
      proof (cases "off = 0 \<or> (off < length s \<and> s ! off = CHR ''.'') \<or> r0 \<noteq> CHR '':''")
        case True
        with i16 sh v4 r show ?thesis
          by (auto simp add: parseIPv6_loop.simps [of ip i ellipsis s])
      next
        case False
        then have f: "off \<noteq> 0" "\<not> (off < length s \<and> s ! off = CHR ''.'')" "r0 = CHR '':''"
          by auto
        from cd r f(3) "1.prems"(3) have crs: "c \<in> set rs" by auto
        then obtain r1 rs' where rs: "rs = r1 # rs'" by (cases rs) auto
        show ?thesis
        proof (cases "r1 = CHR '':''")
          case True
          with crs rs "1.prems"(3) have c2: "c \<in> set rs'" by auto
          then have ne: "rs' \<noteq> []" by auto
          show ?thesis
          proof (cases "0 \<le> ellipsis")
            case True
            with i16 sh f r rs v4 \<open>r1 = CHR '':''\<close> show ?thesis
              by (simp add: parseIPv6_loop.simps [of ip i ellipsis s])
          next
            case False
            have ih: "case parseIPv6_loop
                    (ip[i := of_nat (acc div 256), i + 1 := of_nat (acc mod 256)])
                    (i + 2) (int (i + 2)) rs' of
                  None \<Rightarrow> True | Some (ip', i', e', rest) \<Rightarrow> c \<in> set rest"
            proof -
              have p1: "\<not> \<not> i < 16" using i16 by simp
              have p6: "drop off s \<noteq> []" using r by simp
              have p7: "\<not> hd (drop off s) \<noteq> CHR '':''" using r f(3) by simp
              have p8: "length (drop off s) \<noteq> 1" using r rs by simp
              have p9: "hd (tl (drop off s)) = CHR '':''" using r rs \<open>r1 = CHR '':''\<close> by simp
              have t: "tl (tl (drop off s)) = rs'" using r rs by simp
              have p11: "tl (tl (drop off s)) \<noteq> []" using t ne by simp
              have p12: "c \<in> set (tl (tl (drop off s)))" using t c2 by simp
              from "1.IH"(1) [OF p1 sh refl f(1) f(2) p6 p7 p8 p9 False p11 p12 "1.prems"(2)
                  "1.prems"(3) "1.prems"(4)]
              show ?thesis unfolding t .
            qed
            from i16 sh f r rs v4 \<open>r1 = CHR '':''\<close> False ne ih show ?thesis
              by (simp add: parseIPv6_loop.simps [of ip i ellipsis s])
          qed
        next
          case False
          have ih: "case parseIPv6_loop
                  (ip[i := of_nat (acc div 256), i + 1 := of_nat (acc mod 256)])
                  (i + 2) ellipsis rs of
                None \<Rightarrow> True | Some (ip', i', e', rest) \<Rightarrow> c \<in> set rest"
          proof -
            have p1: "\<not> \<not> i < 16" using i16 by simp
            have p6: "drop off s \<noteq> []" using r by simp
            have p7: "\<not> hd (drop off s) \<noteq> CHR '':''" using r f(3) by simp
            have p8: "length (drop off s) \<noteq> 1" using r rs by simp
            have p9: "hd (tl (drop off s)) \<noteq> CHR '':''" using r rs False by simp
            have t: "tl (drop off s) = rs" using r by simp
            have p12: "c \<in> set (tl (drop off s))" using t crs by simp
            from "1.IH"(2) [OF p1 sh refl f(1) f(2) p6 p7 p8 p9 p12 "1.prems"(2)
                "1.prems"(3) "1.prems"(4)]
            show ?thesis unfolding t .
          qed
          from i16 sh f r rs v4 False ih show ?thesis
            by (simp add: parseIPv6_loop.simps [of ip i ellipsis s])
        qed
      qed
    qed
  qed
qed

lemma parseIPv6_bad:
  assumes c: "c \<in> set s" "hexVal c = None" "c \<noteq> CHR '':''" "c \<noteq> CHR ''.''"
  shows "parseIPv6 s = None \<or> (\<exists>b z. parseIPv6 s = Some (Addr6 b z) \<and> z \<noteq> [])"
proof (cases "IndexByte s CHR ''%'' = - 1")
  case False
  then show ?thesis
    by (auto simp: parseIPv6_def Let_def split: option.splits)
next
  case True
  define lead where "lead = (length s \<ge> 2 \<and> s ! 0 = CHR '':'' \<and> s ! 1 = CHR '':'')"
  define s1 where "s1 = (if lead then drop 2 s else s)"
  have cs1: "c \<in> set s1"
  proof (cases lead)
    case False
    with c(1) show ?thesis by (simp add: s1_def)
  next
    case True
    then obtain r where "s = CHR '':'' # CHR '':'' # r"
      unfolding lead_def by (cases s; cases "tl s") auto
    with c(1) c(3) True show ?thesis by (auto simp: s1_def)
  qed
  then have ne: "s1 \<noteq> []" by auto
  define L where "L = parseIPv6_loop zero16 0 (if lead then 0 else - 1) s1"
  have l: "case L of None \<Rightarrow> True | Some (ip', i', e', rest) \<Rightarrow> c \<in> set rest"
    unfolding L_def using cs1 c(2) c(3) c(4) by (rule parseIPv6_loop_bad)
  have eq: "parseIPv6 s =
      (if lead \<and> s1 = [] then Some (Addr6 zero16 [])
       else (case L of
               None \<Rightarrow> None
             | Some (ip, i, ellipsis, rest) \<Rightarrow>
                 if rest \<noteq> [] then None
                 else if i < 16 then
                   (if ellipsis < 0 then None
                    else Some (Addr6 (expandEllipsis ip i (nat ellipsis)) []))
                 else if 0 \<le> ellipsis then None
                 else Some (Addr6 ip [])))"
    unfolding parseIPv6_def Let_def True
    apply (simp only: simp_thms if_False if_True)
    apply (fold lead_def)
    apply (fold s1_def)
    apply (fold L_def)
    apply (rule refl)
    done
  show ?thesis
  proof (cases L)
    case None
    with ne show ?thesis by (simp add: eq)
  next
    case (Some x)
    obtain ip' i' e' rest where x: "x = (ip', i', e', rest)" by (cases x)
    from l Some x have "rest \<noteq> []" by auto
    with Some x ne show ?thesis by (simp add: eq)
  qed
qed

lemma ParseAddr_loop_cases:
  "ParseAddr_loop s cs = None \<or> ParseAddr_loop s cs = map_option Addr4 (parseIPv4 s)
   \<or> ParseAddr_loop s cs = parseIPv6 s"
  by (induction cs) auto

lemma ParseIP_bad:
  assumes c: "c \<in> set s" "hexVal c = None" "c \<noteq> CHR '':''" "c \<noteq> CHR ''.''"
  shows "ParseIP s = []"
proof -
  have v4: "parseIPv4 s = None"
    using c hexVal_None_not_digit by (simp add: parseIPv4_bad)
  from ParseAddr_loop_cases [of s s] parseIPv6_bad [OF c] v4
  show ?thesis
    by (auto simp: ParseIP_def ParseAddr_def)
qed

lemma hexVal_brackets: "hexVal CHR ''['' = None" "hexVal CHR '']'' = None"
  by (simp_all add: hexVal_def byteOf_def)

lemma ParseIP_no_bracket:
  assumes "ParseIP m \<noteq> []"
  shows "CHR ''['' \<notin> set m \<and> CHR '']'' \<notin> set m"
  using assms ParseIP_bad [of "CHR ''[''" m] ParseIP_bad [of "CHR '']''" m]
  by (auto simp: hexVal_brackets)

lemma dropWhile_none: "(\<forall>x \<in> set s. \<not> P x) \<Longrightarrow> dropWhile P s = s"
  by (cases s) auto

lemma Trim_no_cut: "(\<forall>x \<in> set s. x \<notin> set cs) \<Longrightarrow> Trim s cs = s"
  by (simp add: Trim_def dropWhile_none)

lemma Trim_bracketed:
  assumes "CHR ''['' \<notin> set m" "CHR '']'' \<notin> set m"
  shows "Trim (''['' @ m @ '']'') ''[]'' = m"
proof -
  have n: "\<forall>x \<in> set m. \<not> x \<in> set ''[]''" using assms by auto
  show ?thesis
  proof (cases "m = []")
    case True
    then show ?thesis by (simp add: Trim_def)
  next
    case False
    then have h: "hd m \<in> set m" "last m \<in> set m" by simp_all
    with n have hn: "\<not> hd m \<in> set ''[]''" "\<not> last m \<in> set ''[]''" by blast+
    from False hn(1) have d1: "dropWhile (\<lambda>c. c \<in> set ''[]'') (m @ '']'') = m @ '']''"
      by (cases m) auto
    have d2: "dropWhile (\<lambda>c. c \<in> set ''[]'') (rev m) = rev m"
      using n by (simp add: dropWhile_none)
    have "Trim (''['' @ m @ '']'') ''[]''
        = rev (dropWhile (\<lambda>c. c \<in> set ''[]'') (rev (dropWhile (\<lambda>c. c \<in> set ''[]'') (m @ '']''))))"
      by (simp add: Trim_def)
    also have "\<dots> = rev (dropWhile (\<lambda>c. c \<in> set ''[]'') (CHR '']'' # rev m))"
      by (simp only: d1) simp
    also have "\<dots> = rev (dropWhile (\<lambda>c. c \<in> set ''[]'') (rev m))" by simp
    also have "\<dots> = m" by (simp only: d2 rev_rev_ident)
    finally show ?thesis .
  qed
qed

section \<open>Address formatting\<close>

lemma To16_Nil: "To16 [] = []"
  by (simp add: To16_def)

lemma To4_Nil: "To4 [] = []"
  by (simp add: To4_def)

lemma FormatValidIp_cases:
  "FormatValidIp m =
     (if To4 (ParseIP m) = [] \<and> To16 (ParseIP m) \<noteq> [] then ''['' @ m @ '']'' else m)"
proof (cases "To4 (ParseIP m) = [] \<and> To16 (ParseIP m) \<noteq> []")
  case False
  then show ?thesis by (auto simp: FormatValidIp_def)
next
  case True
  then have "ParseIP m \<noteq> []" using To16_Nil by auto
  then have "\<forall>x \<in> set m. x \<notin> set ''[]''" using ParseIP_no_bracket [of m] by auto
  then have "Trim m ''[]'' = m" by (rule Trim_no_cut)
  with True show ?thesis by (simp add: FormatValidIp_def)
qed

lemma FormatValidIp_bracketed: "FormatValidIp (''['' @ m @ '']'') = ''['' @ m @ '']''"
proof -
  have "ParseIP (''['' @ m @ '']'') = []"
    using ParseIP_bad [of "CHR ''[''" "''['' @ m @ '']''"] by (simp add: hexVal_brackets)
  then show ?thesis by (simp add: FormatValidIp_def To4_Nil To16_Nil)
qed

lemma FormatValidIp_idem: "FormatValidIp (FormatValidIp m) = FormatValidIp m"
  using FormatValidIp_bracketed [of m] by (simp add: FormatValidIp_cases [of m])

lemma FormatValidIp_valid:
  assumes "ParseIP (Trim m ''[]'') \<noteq> [] \<or> ValidateDNSName m"
  shows "ParseIP (Trim (FormatValidIp m) ''[]'') \<noteq> [] \<or> ValidateDNSName (FormatValidIp m)"
proof (cases "To4 (ParseIP m) = [] \<and> To16 (ParseIP m) \<noteq> []")
  case False
  then have "FormatValidIp m = m" by (auto simp: FormatValidIp_cases [of m])
  with assms show ?thesis by simp
next
  case True
  then have p: "ParseIP m \<noteq> []" using To16_Nil by auto
  then have "Trim (''['' @ m @ '']'') ''[]'' = m"
    using ParseIP_no_bracket [of m] Trim_bracketed [of m] by blast
  with True p show ?thesis by (simp add: FormatValidIp_cases [of m])
qed

lemma FormatValidIp_Nil: "FormatValidIp [] = []"
  by (simp add: FormatValidIp_def ParseIP_Nil To4_Nil To16_Nil)

lemma serialize_emptyHandle: "ValidateFssId (serializeHandle emptyHandle) = Some emptyHandle"
  by (simp add: serializeHandle_def emptyHandle_def FormatValidIp_Nil ValidateFssId_def Let_def)

lemma round_trip_fields:
  assumes d: "fs \<noteq> []" "CHR '':'' \<notin> set fs" "p \<noteq> []" "CHR '':'' \<notin> set p"
    and v: "ParseIP (Trim m ''[]'') \<noteq> [] \<or> ValidateDNSName m"
  shows "ValidateFssId
           (serializeHandle \<lparr>FilesystemOcid = fs, MountTargetIPAddress = m, FsExportPath = p\<rparr>) =
         Some \<lparr>FilesystemOcid = fs, MountTargetIPAddress = FormatValidIp m, FsExportPath = p\<rparr>"
  using ValidateFssId_split [OF d, of "FormatValidIp m"] FormatValidIp_valid [OF v]
  by (simp add: serializeHandle_def)

lemma ParseIP_ex7: "ParseIP ''[fd00:00c1::a9fe:202]'' = []"
  using ParseIP_bad [of "CHR ''[''" "''[fd00:00c1::a9fe:202]''"] by (simp add: hexVal_brackets)

lemma ValidateFssId_ex8:
  "ValidateFssId ''ocid1.filesystem.oc1..xxxx:fd00:00c1::a9fe:202:/export/path'' =
     Some \<lparr>FilesystemOcid = ''ocid1.filesystem.oc1..xxxx'',
           MountTargetIPAddress = ''fd00:00c1::a9fe:202'',
           FsExportPath = ''/export/path''\<rparr>"
proof -
  have "Trim ''fd00:00c1::a9fe:202'' ''[]'' = ''fd00:00c1::a9fe:202''" by (simp add: Trim_def)
  then show ?thesis
    using ValidateFssId_split [of "''ocid1.filesystem.oc1..xxxx''" "''/export/path''"
      "''fd00:00c1::a9fe:202''"]
    by (simp add: ParseIP_ex5)
qed

lemma FormatValidIp_ex8: "FormatValidIp ''fd00:00c1::a9fe:202'' = ''[fd00:00c1::a9fe:202]''"
  by (simp add: FormatValidIp_def ParseIP_ex5 To4_def To16_def Trim_def)

section \<open>File storage volume handles: the round trip\<close>

text \<open>
  C8. Let \<open>h\<close> be the handle that \<open>ValidateFssId\<close> returns for some input. Joining
  its three fields with colons, the address passed through \<open>FormatValidIp\<close>, and parsing
  the result gives \<open>h\<close> with its address replaced by the formatted address; the other
  two fields are reproduced. The formatted address is the address itself unless the
  address parses as an IPv6 address that is not an IPv4 address, and then it is the address
  in square brackets: an address written without brackets comes back with brackets. A
  second round trip changes nothing more, and the all-empty handle is a fixed point.
\<close>

theorem ValidateFssId_round_trip:
  assumes "ValidateFssId ident = Some h"
  shows "ValidateFssId (serializeHandle h) =
           Some (h\<lparr>MountTargetIPAddress := FormatValidIp (MountTargetIPAddress h)\<rparr>)
     \<and> FormatValidIp (MountTargetIPAddress h) =
         (if To4 (ParseIP (MountTargetIPAddress h)) = []
             \<and> To16 (ParseIP (MountTargetIPAddress h)) \<noteq> []
          then ''['' @ MountTargetIPAddress h @ '']'' else MountTargetIPAddress h)
     \<and> ValidateFssId
         (serializeHandle (h\<lparr>MountTargetIPAddress := FormatValidIp (MountTargetIPAddress h)\<rparr>)) =
           Some (h\<lparr>MountTargetIPAddress := FormatValidIp (MountTargetIPAddress h)\<rparr>)
     \<and> ValidateFssId (serializeHandle emptyHandle) = Some emptyHandle"
proof -
  have c2: "FormatValidIp (MountTargetIPAddress h) =
         (if To4 (ParseIP (MountTargetIPAddress h)) = []
             \<and> To16 (ParseIP (MountTargetIPAddress h)) \<noteq> []
          then ''['' @ MountTargetIPAddress h @ '']'' else MountTargetIPAddress h)"
    by (rule FormatValidIp_cases)
  have c13: "ValidateFssId (serializeHandle h) =
           Some (h\<lparr>MountTargetIPAddress := FormatValidIp (MountTargetIPAddress h)\<rparr>)
     \<and> ValidateFssId
         (serializeHandle (h\<lparr>MountTargetIPAddress := FormatValidIp (MountTargetIPAddress h)\<rparr>)) =
           Some (h\<lparr>MountTargetIPAddress := FormatValidIp (MountTargetIPAddress h)\<rparr>)"
    using ValidateFssId_cases [of ident]
  proof
    assume "ValidateFssId ident = Some emptyHandle"
    with assms have "h = emptyHandle" by simp
    then show ?thesis
      using serialize_emptyHandle by (simp add: emptyHandle_def FormatValidIp_Nil)
  next
    assume "\<exists>fs m p. ident = fs @ CHR '':'' # m @ CHR '':'' # p
         \<and> fs \<noteq> [] \<and> CHR '':'' \<notin> set fs \<and> p \<noteq> [] \<and> CHR '':'' \<notin> set p \<and> m \<noteq> []
         \<and> (ParseIP (Trim m ''[]'') \<noteq> [] \<or> ValidateDNSName m)
         \<and> ValidateFssId ident =
             Some \<lparr>FilesystemOcid = fs, MountTargetIPAddress = m, FsExportPath = p\<rparr>"
    then obtain fs m p where d: "fs \<noteq> []" "CHR '':'' \<notin> set fs" "p \<noteq> []" "CHR '':'' \<notin> set p"
      and v: "ParseIP (Trim m ''[]'') \<noteq> [] \<or> ValidateDNSName m"
      and r: "ValidateFssId ident =
             Some \<lparr>FilesystemOcid = fs, MountTargetIPAddress = m, FsExportPath = p\<rparr>"
      by blast
    from r assms have h: "h = \<lparr>FilesystemOcid = fs, MountTargetIPAddress = m, FsExportPath = p\<rparr>"
      by simp
    from round_trip_fields [OF d v] round_trip_fields [OF d FormatValidIp_valid [OF v]]
    show ?thesis by (simp add: h FormatValidIp_idem)
  qed
  from c13 c2 serialize_emptyHandle show ?thesis by blast
qed

theorem ValidateFssId_round_trip_witness:
  "ValidateFssId
     (serializeHandle \<lparr>FilesystemOcid = ''ocid1.filesystem.oc1..xxxx'',
                       MountTargetIPAddress = ''10.0.0.5'',
                       FsExportPath = ''/export/path''\<rparr>) =
   Some \<lparr>FilesystemOcid = ''ocid1.filesystem.oc1..xxxx'',
         MountTargetIPAddress = ''10.0.0.5'',
         FsExportPath = ''/export/path''\<rparr>
   \<and> ValidateFssId
     (serializeHandle \<lparr>FilesystemOcid = ''ocid1.filesystem.oc1..xxxx'',
                       MountTargetIPAddress = ''[fd00:00c1::a9fe:202]'',
                       FsExportPath = ''/export/path''\<rparr>) =
   Some \<lparr>FilesystemOcid = ''ocid1.filesystem.oc1..xxxx'',
         MountTargetIPAddress = ''[fd00:00c1::a9fe:202]'',
         FsExportPath = ''/export/path''\<rparr>"
proof -
  have a: "To4 (ParseIP ''10.0.0.5'') \<noteq> []" by (simp add: ParseIP_ex6 To4_def)
  have b: "To16 (ParseIP ''[fd00:00c1::a9fe:202]'') = []" by (simp add: ParseIP_ex7 To16_def)
  from ValidateFssId_round_trip [OF ValidateFssId_ex6] a
    ValidateFssId_round_trip [OF ValidateFssId_ex5] b
  show ?thesis by simp
qed

text \<open>
  The handle \<open>ocid1.filesystem.oc1..xxxx:fd00:00c1::a9fe:202:/export/path\<close> is accepted
  with the address \<open>fd00:00c1::a9fe:202\<close>; serialised it is
  \<open>ocid1.filesystem.oc1..xxxx:[fd00:00c1::a9fe:202]:/export/path\<close>, which parses to the
  address \<open>[fd00:00c1::a9fe:202]\<close>: the round trip does not reproduce the handle.
\<close>

theorem ValidateFssId_round_trip_brackets_ipv6:
  "ValidateFssId ''ocid1.filesystem.oc1..xxxx:fd00:00c1::a9fe:202:/export/path'' =
     Some \<lparr>FilesystemOcid = ''ocid1.filesystem.oc1..xxxx'',
           MountTargetIPAddress = ''fd00:00c1::a9fe:202'',
           FsExportPath = ''/export/path''\<rparr>
   \<and> serializeHandle \<lparr>FilesystemOcid = ''ocid1.filesystem.oc1..xxxx'',
                       MountTargetIPAddress = ''fd00:00c1::a9fe:202'',
                       FsExportPath = ''/export/path''\<rparr>
       = ''ocid1.filesystem.oc1..xxxx:[fd00:00c1::a9fe:202]:/export/path''
   \<and> ValidateFssId ''ocid1.filesystem.oc1..xxxx:[fd00:00c1::a9fe:202]:/export/path'' =
     Some \<lparr>FilesystemOcid = ''ocid1.filesystem.oc1..xxxx'',
           MountTargetIPAddress = ''[fd00:00c1::a9fe:202]'',
           FsExportPath = ''/export/path''\<rparr>
   \<and> ValidateFssId
       (serializeHandle \<lparr>FilesystemOcid = ''ocid1.filesystem.oc1..xxxx'',
                         MountTargetIPAddress = ''fd00:00c1::a9fe:202'',
                         FsExportPath = ''/export/path''\<rparr>)
       \<noteq> ValidateFssId ''ocid1.filesystem.oc1..xxxx:fd00:00c1::a9fe:202:/export/path''"
  by (simp add: ValidateFssId_ex8 ValidateFssId_ex5 serializeHandle_def FormatValidIp_ex8)

end
